theory Spec2Isabelle
  imports Main "HOL-Library.Sublist"
begin

section \<open>Daily Notes Digest: a shallow embedding of the plugin\<close>

text \<open>
  The plugin is TypeScript running inside a note-taking host. Its strings are sequences of
  code units; here a code unit is a \<^typ>\<open>char\<close>, so the development covers the
  code units below 256. The built-in string operations the plugin calls (\<open>trim\<close>,
  \<open>split\<close>, \<open>join\<close>, \<open>padStart\<close>, \<open>replaceAll\<close>, comparison with \<open><\<close>,
  matching against the two anchored filename patterns) are written out as list functions that
  follow the language standard. \<open>undefined\<close> is \<open>None\<close>.
\<close>

subsection \<open>String primitives of the language\<close>

definition isWhiteSpace :: "char \<Rightarrow> bool" where
  "isWhiteSpace c \<longleftrightarrow> c \<in> {CHR 0x09, CHR 0x0A, CHR 0x0B, CHR 0x0C, CHR 0x0D, CHR 0x20, CHR 0xA0}"

definition trimStart :: "string \<Rightarrow> string" where
  "trimStart s = dropWhile isWhiteSpace s"

definition trimEnd :: "string \<Rightarrow> string" where
  "trimEnd s = rev (dropWhile isWhiteSpace (rev s))"

definition trim :: "string \<Rightarrow> string" where
  "trim s = trimEnd (trimStart s)"

text \<open>\<open>s.split(c)\<close> for a one-character separator: never the empty array.\<close>

fun split :: "char \<Rightarrow> string \<Rightarrow> string list" where
  "split c [] = [[]]"
| "split c (x # xs) =
     (if x = c then [] # split c xs
      else (case split c xs of [] \<Rightarrow> [[x]] | s # ss \<Rightarrow> (x # s) # ss))"

text \<open>\<open>parts.join(c)\<close>.\<close>

fun join :: "char \<Rightarrow> string list \<Rightarrow> string" where
  "join c [] = []"
| "join c [s] = s"
| "join c (s # t # ss) = s @ c # join c (t # ss)"

text \<open>Array indexing: out of range is \<open>undefined\<close>.\<close>

fun at :: "'a list \<Rightarrow> nat \<Rightarrow> 'a option" where
  "at [] i = None"
| "at (x # xs) 0 = Some x"
| "at (x # xs) (Suc i) = at xs i"

text \<open>\<open>parts.pop() ?? ""\<close>: the last element, the empty string for an empty array.\<close>

definition pop_or_empty :: "string list \<Rightarrow> string" where
  "pop_or_empty ss = (case ss of [] \<Rightarrow> [] | _ \<Rightarrow> last ss)"

text \<open>A value inside a template literal: \<open>undefined\<close> prints as the word.\<close>

definition tpl :: "string option \<Rightarrow> string" where
  "tpl v = (case v of None \<Rightarrow> ''undefined'' | Some s \<Rightarrow> s)"

text \<open>Decimal printing of numbers, as a template literal does for an integer.\<close>

definition digit_char :: "nat \<Rightarrow> char" where
  "digit_char d = char_of (of_char CHR ''0'' + d)"

function show_nat :: "nat \<Rightarrow> string" where
  "show_nat n = (if n < 10 then [digit_char n] else show_nat (n div 10) @ [digit_char (n mod 10)])"
  by pat_completeness auto
termination
  by (relation "measure id") auto

definition show_int :: "int \<Rightarrow> string" where
  "show_int i = (if i < 0 then CHR ''-'' # show_nat (nat (- i)) else show_nat (nat i))"

text \<open>\<open>s.padStart(n, "0")\<close>.\<close>

definition padStart :: "nat \<Rightarrow> char \<Rightarrow> string \<Rightarrow> string" where
  "padStart n c s = replicate (n - length s) c @ s"

text \<open>\<open>a < b\<close> on strings: lexicographic on code units.\<close>

fun str_less :: "string \<Rightarrow> string \<Rightarrow> bool" where
  "str_less [] [] = False"
| "str_less [] (y # ys) = True"
| "str_less (x # xs) [] = False"
| "str_less (x # xs) (y # ys) =
     ((of_char x :: nat) < of_char y \<or> (x = y \<and> str_less xs ys))"

text \<open>The class \<open>\d\<close> of the filename patterns.\<close>

definition isDigit :: "char \<Rightarrow> bool" where
  "isDigit c \<longleftrightarrow> (of_char CHR ''0'' :: nat) \<le> of_char c \<and> (of_char c :: nat) \<le> of_char CHR ''9''"

text \<open>The pattern \<open>\d{4}-\d{2}-\d{2}\<close> against a whole string.\<close>

definition isDateStamp :: "string \<Rightarrow> bool" where
  "isDateStamp s \<longleftrightarrow>
     length s = 10 \<and>
     list_all isDigit (take 4 s) \<and> s ! 4 = CHR ''-'' \<and>
     list_all isDigit (take 2 (drop 5 s)) \<and> s ! 7 = CHR ''-'' \<and>
     list_all isDigit (drop 8 s)"

subsection \<open>The host's path normalisation\<close>

text \<open>
  \<open>normalizePath\<close> is imported from the host. The repository carries one implementation of
  it, the one its test suite runs against:
  \<^verbatim>\<open>value.replace(/\\/g, "/").replace(/\/+/g, "/")\<close>
  Every backslash becomes a slash, then every run of slashes becomes one slash.
\<close>

definition backslashes_to_slashes :: "string \<Rightarrow> string" where
  "backslashes_to_slashes s = map (\<lambda>c. if c = CHR 0x5C then CHR ''/'' else c) s"

fun collapse_slashes :: "string \<Rightarrow> string" where
  "collapse_slashes [] = []"
| "collapse_slashes [c] = [c]"
| "collapse_slashes (c # d # s) =
     (if c = CHR ''/'' \<and> d = CHR ''/'' then collapse_slashes (d # s)
      else c # collapse_slashes (d # s))"

definition normalizePath :: "string \<Rightarrow> string" where
  "normalizePath v = collapse_slashes (backslashes_to_slashes v)"

subsection \<open>Settings and the clock\<close>

text \<open>
  The settings object. Its declaration is not part of the sources at hand; the fields are the
  ones the plugin reads and writes.
\<close>

record DailyNotesDigestSettings =
  dailyNotesFolder :: string
  outputFolder :: string
  llmEndpoint :: string
  apiKey :: string
  model :: string
  promptTemplate :: string
  checkIntervalMinutes :: nat
  sortDailyNotesAndSummaries :: bool
  lastProcessedDate :: string

text \<open>
  A \<open>Date\<close> as the plugin observes it: the local calendar fields, the month counted from 0,
  and the time of day in milliseconds.
\<close>

record date =
  getFullYear :: int
  getMonth :: nat
  getDate :: nat
  msOfDay :: nat

text \<open>
  The clock of the host, after the ECMAScript specification of \<open>Date\<close>. \<open>new Date()\<close>
  gives the reading, in local time. The time zone of the host is the function from the
  local fields a program sets to the local fields of the moment they denote: the identity,
  except on the local times the zone skips (the hour lost to daylight saving, a calendar
  day dropped at the date line), which denote the moment that lies as far after the skip
  as they lie into it.
\<close>

record hostClock =
  newDate :: date
  localTime :: "date \<Rightarrow> date"

definition isLeapYear :: "int \<Rightarrow> bool" where
  "isLeapYear y \<longleftrightarrow> (y mod 4 = 0 \<and> y mod 100 \<noteq> 0) \<or> y mod 400 = 0"

definition daysInMonth :: "int \<Rightarrow> nat \<Rightarrow> nat" where
  "daysInMonth y m =
     (if m = 1 then (if isLeapYear y then 29 else 28)
      else if m \<in> {3, 5, 8, 10} then 30 else 31)"

text \<open>
  \<open>d.setDate(n)\<close> in local time. A day number outside the month rolls into the
  neighbouring months, \<open>0\<close> being the last day of the month before (\<open>MakeDay\<close>); the
  time of day is kept, and the fields so made are read back through the time zone.
\<close>

function rollBack :: "int \<Rightarrow> nat \<Rightarrow> int \<Rightarrow> int \<times> nat \<times> nat" where
  "rollBack y m n =
     (if 1 \<le> n then (y, m, nat n)
      else (let y' = (if m = 0 then y - 1 else y); m' = (if m = 0 then 11 else m - 1)
            in rollBack y' m' (n + int (daysInMonth y' m'))))"
  by pat_completeness auto
termination
  by (relation "measure (\<lambda>(y, m, n). nat (1 - n))") (auto simp: daysInMonth_def Let_def)

function rollForward :: "int \<Rightarrow> nat \<Rightarrow> nat \<Rightarrow> int \<times> nat \<times> nat" where
  "rollForward y m n =
     (if n \<le> daysInMonth y m then (y, m, n)
      else rollForward (if m = 11 then y + 1 else y) (if m = 11 then 0 else m + 1)
             (n - daysInMonth y m))"
  by pat_completeness auto
termination
  by (relation "measure (\<lambda>(y, m, n). n)") (auto simp: daysInMonth_def)

definition makeDay :: "date \<Rightarrow> int \<Rightarrow> date" where
  "makeDay d n =
     (case rollBack (getFullYear d) (getMonth d) n of (y, m, k) \<Rightarrow>
        (case rollForward y m k of (y', m', k') \<Rightarrow>
           d\<lparr>getFullYear := y', getMonth := m', getDate := k'\<rparr>))"

definition setDate :: "(date \<Rightarrow> date) \<Rightarrow> date \<Rightarrow> int \<Rightarrow> date" where
  "setDate zone d n = zone (makeDay d n)"

definition getLocalDateStamp :: "date \<Rightarrow> string" where
  "getLocalDateStamp d =
     (let year = getFullYear d;
          month = padStart 2 CHR ''0'' (show_nat (getMonth d + 1));
          day = padStart 2 CHR ''0'' (show_nat (getDate d))
      in show_int year @ ''-'' @ month @ ''-'' @ day)"

definition getYesterdayStamp :: "hostClock \<Rightarrow> string" where
  "getYesterdayStamp host =
     (let now = newDate host;
          yesterdayDate = setDate (localTime host) now (int (getDate now) - 1)
      in getLocalDateStamp yesterdayDate)"

record dateParts =
  year :: "string option"
  month :: "string option"

definition getDateParts :: "string \<Rightarrow> dateParts" where
  "getDateParts dateStamp =
     (let parts = split CHR ''-'' dateStamp
      in \<lparr>year = at parts 0, month = at parts 1\<rparr>)"

definition isDateStampBefore :: "string \<Rightarrow> string \<Rightarrow> bool" where
  "isDateStampBefore a b = str_less a b"

subsection \<open>Path resolver\<close>

text \<open>
  Both functions read the settings object and the clock of the host; the embedding passes
  the two in.
\<close>

definition getDailyNotePath :: "DailyNotesDigestSettings \<Rightarrow> hostClock \<Rightarrow> string \<Rightarrow> string" where
  "getDailyNotePath s host dateStamp =
     (let today = getLocalDateStamp (newDate host)
      in if sortDailyNotesAndSummaries s \<and> dateStamp \<noteq> today
         then (let p = getDateParts dateStamp
               in normalizePath (dailyNotesFolder s @ ''/'' @ tpl (year p) @ ''/'' @ tpl (month p)
                                 @ ''/'' @ dateStamp @ ''.md''))
         else normalizePath (dailyNotesFolder s @ ''/'' @ dateStamp @ ''.md''))"

definition getSummaryPath :: "DailyNotesDigestSettings \<Rightarrow> hostClock \<Rightarrow> string \<Rightarrow> string" where
  "getSummaryPath s host dateStamp =
     (if sortDailyNotesAndSummaries s \<and> isDateStampBefore dateStamp (getYesterdayStamp host)
      then (let p = getDateParts dateStamp
            in normalizePath (outputFolder s @ ''/'' @ tpl (year p) @ ''/'' @ tpl (month p)
                              @ ''/'' @ dateStamp @ ''_summary.md''))
      else normalizePath (outputFolder s @ ''/'' @ dateStamp @ ''_summary.md''))"


definition getSummaryDateStamp :: "string \<Rightarrow> string option" where
  "getSummaryDateStamp filename =
     (if isDateStamp (take 10 filename) \<and> drop 10 filename = ''_summary.md''
      then Some (take 10 filename) else None)"

subsection \<open>Summarization client: the prompt\<close>

datatype role = System | User

record ChatMessage =
  role :: role
  content :: string

text \<open>
  \<open>template.replaceAll(searchValue, replaceValue)\<close> with two strings. The standard expands
  the replacement text at every match: \<open>$$\<close> is a dollar sign, \<open>$&\<close> the matched text,
  \<open>$`\<close> the text before the match, \<open>$'\<close> the text after it. With a string pattern there
  are no capture groups, so every other \<open>$\<close> stands for itself.
\<close>

fun getSubstitution :: "string \<Rightarrow> string \<Rightarrow> string \<Rightarrow> string \<Rightarrow> string" where
  "getSubstitution matched preceding following [] = []"
| "getSubstitution matched preceding following [c] = [c]"
| "getSubstitution matched preceding following (c # d # t) =
     (if c = CHR ''$'' \<and> d = CHR ''$'' then CHR ''$'' # getSubstitution matched preceding following t
      else if c = CHR ''$'' \<and> d = CHR 0x60 then preceding @ getSubstitution matched preceding following t
      else if c = CHR ''$'' \<and> d = CHR ''&'' then matched @ getSubstitution matched preceding following t
      else if c = CHR ''$'' \<and> d = CHR 0x27 then following @ getSubstitution matched preceding following t
      else c # getSubstitution matched preceding following (d # t))"

text \<open>
  The matches are found from left to right, each search starting where the last match ended
  (one code unit further for the empty pattern). \<open>preceding\<close> is the text already passed.
\<close>

function replaceAll_from :: "string \<Rightarrow> string \<Rightarrow> string \<Rightarrow> string \<Rightarrow> string" where
  "replaceAll_from searchValue replaceValue preceding s =
     (if searchValue \<noteq> [] \<and> prefix searchValue s
      then getSubstitution searchValue preceding (drop (length searchValue) s) replaceValue
           @ replaceAll_from searchValue replaceValue (preceding @ searchValue)
               (drop (length searchValue) s)
      else (if searchValue = [] then getSubstitution [] preceding s replaceValue else [])
           @ (case s of [] \<Rightarrow> []
              | c # cs \<Rightarrow> c # replaceAll_from searchValue replaceValue (preceding @ [c]) cs))"
  by pat_completeness auto
termination
  by (relation "measure (\<lambda>(searchValue, replaceValue, preceding, s). length s)")
     (auto simp: prefix_def)

definition replaceAll :: "string \<Rightarrow> string \<Rightarrow> string \<Rightarrow> string" where
  "replaceAll s searchValue replaceValue = replaceAll_from searchValue replaceValue [] s"

definition buildMessages :: "DailyNotesDigestSettings \<Rightarrow> string \<Rightarrow> string \<Rightarrow> ChatMessage list" where
  "buildMessages s dateStamp note =
     (let instructionContent = replaceAll (promptTemplate s) ''{{date}}'' dateStamp
      in [\<lparr>role = System, content = instructionContent\<rparr>,
          \<lparr>role = User, content = ''Daily note for '' @ dateStamp @ '':\<newline>\<newline>'' @ note\<rparr>])"

subsection \<open>Summarization client: the call\<close>

text \<open>
  What the plugin can throw or catch: an \<open>Error\<close> with its message, or any other thrown
  value, kept as the text \<open>String(error)\<close> gives for it.
\<close>

datatype thrown = Error string | NonError string

text \<open>
  The parsed response body. An object is the list of its own properties. Numbers are never
  inspected by the plugin; integers stand for them.
\<close>

datatype jsvalue =
    JUndefined
  | JNull
  | JBool bool
  | JNumber int
  | JString string
  | JArray "jsvalue list"
  | JObject "(string \<times> jsvalue) list"

text \<open>
  Reading property \<open>k\<close> of a value that is neither \<open>null\<close> nor \<open>undefined\<close>: an own
  property of an object, an index or the length of an array or of a string, and
  \<open>undefined\<close> for everything else.
\<close>

definition getProp :: "jsvalue \<Rightarrow> string \<Rightarrow> jsvalue" where
  "getProp v k =
     (case v of
        JObject kvs \<Rightarrow> (case map_of kvs k of None \<Rightarrow> JUndefined | Some x \<Rightarrow> x)
      | JArray xs \<Rightarrow>
          (if k = ''length'' then JNumber (int (length xs))
           else (case filter (\<lambda>i. show_nat i = k) [0..<length xs] of
                   [] \<Rightarrow> JUndefined | i # _ \<Rightarrow> xs ! i))
      | JString s \<Rightarrow>
          (if k = ''length'' then JNumber (int (length s))
           else (case filter (\<lambda>i. show_nat i = k) [0..<length s] of
                   [] \<Rightarrow> JUndefined | i # _ \<Rightarrow> JString [s ! i]))
      | _ \<Rightarrow> JUndefined)"

text \<open>Optional chaining, \<open>v?.k\<close>.\<close>

definition optChain :: "jsvalue \<Rightarrow> string \<Rightarrow> jsvalue" where
  "optChain v k = (if v = JUndefined \<or> v = JNull then JUndefined else getProp v k)"

record requestBody =
  body_model :: string
  body_messages :: "ChatMessage list"
  body_temperature :: string

record request =
  req_method :: string
  url :: string
  headers :: "(string \<times> string) list"
  body :: requestBody

record response =
  status :: int
  json :: jsvalue

text \<open>
  The surroundings of one invocation: the clock of the host, and what the network answers to
  a request, either a response or a thrown transport failure.
\<close>

record env =
  clock :: hostClock
  requestUrl :: "request \<Rightarrow> thrown + response"

subsection \<open>The vault and the effects of the plugin\<close>

text \<open>
  Every call the plugin makes that acts on the world is recorded, in order, when it is made.
\<close>

datatype effect =
    RequestUrl request
  | Write string string
  | Rename string string
  | CreateFolder string
  | Notice string
  | ConsoleError string thrown
  | SaveData DailyNotesDigestSettings

record world =
  files :: "(string \<times> string) list"
  folders :: "string list"
  settings :: DailyNotesDigestSettings
  savedData :: "DailyNotesDigestSettings option"
  trace :: "effect list"

definition new_events :: "world \<Rightarrow> world \<Rightarrow> effect list" where
  "new_events w w' = drop (length (trace w)) (trace w')"

definition emit :: "effect \<Rightarrow> world \<Rightarrow> world" where
  "emit e w = w\<lparr>trace := trace w @ [e]\<rparr>"

definition dirname :: "string \<Rightarrow> string" where
  "dirname p = join CHR ''/'' (butlast (split CHR ''/'' p))"

text \<open>
  Modelled from the spec: the storage gateway of the host, which the plugin only calls.
  \<open>exists\<close> answers for files and folders; \<open>read\<close> returns the text of a file; \<open>write\<close>
  creates or overwrites; \<open>rename\<close> moves a file and fails when the target is taken;
  \<open>list\<close> returns the files directly inside a folder; \<open>createFolder\<close> fails when the
  parent is missing.
\<close>

definition adapter_exists :: "world \<Rightarrow> string \<Rightarrow> bool" where
  "adapter_exists w p \<longleftrightarrow> p \<in> set (map fst (files w)) \<or> p \<in> set (folders w)"

definition adapter_read :: "world \<Rightarrow> string \<Rightarrow> thrown + string" where
  "adapter_read w p =
     (case map_of (files w) p of
        None \<Rightarrow> Inl (Error (''ENOENT: no such file, '' @ p))
      | Some text \<Rightarrow> Inr text)"

definition adapter_write :: "string \<Rightarrow> string \<Rightarrow> world \<Rightarrow> world" where
  "adapter_write p text w =
     (let w1 = emit (Write p text) w
      in if p \<in> set (map fst (files w1))
         then w1\<lparr>files := map (\<lambda>(k, v). if k = p then (k, text) else (k, v)) (files w1)\<rparr>
         else w1\<lparr>files := files w1 @ [(p, text)]\<rparr>)"

definition adapter_rename :: "string \<Rightarrow> string \<Rightarrow> world \<Rightarrow> thrown option \<times> world" where
  "adapter_rename old new w =
     (let w1 = emit (Rename old new) w
      in if old \<notin> set (map fst (files w1)) then (Some (Error (''ENOENT: no such file, '' @ old)), w1)
         else if adapter_exists w1 new then (Some (Error ''Destination file already exists!''), w1)
         else (None, w1\<lparr>files := map (\<lambda>(k, v). if k = old then (new, v) else (k, v)) (files w1)\<rparr>))"

definition adapter_list :: "world \<Rightarrow> string \<Rightarrow> string list" where
  "adapter_list w folder = filter (\<lambda>k. dirname k = folder) (map fst (files w))"

definition createFolder :: "string \<Rightarrow> world \<Rightarrow> thrown option \<times> world" where
  "createFolder p w =
     (let w1 = emit (CreateFolder p) w
      in if dirname p \<noteq> [] \<and> dirname p \<notin> set (folders w1)
         then (Some (Error (''ENOENT: no such directory, '' @ dirname p)), w1)
         else (None, w1\<lparr>folders := folders w1 @ [p]\<rparr>))"

definition saveSettings :: "world \<Rightarrow> world" where
  "saveSettings w = (emit (SaveData (settings w)) w)\<lparr>savedData := Some (settings w)\<rparr>"

fun ensureFolderExists_loop :: "string \<Rightarrow> string list \<Rightarrow> world \<Rightarrow> thrown option \<times> world" where
  "ensureFolderExists_loop current [] w = (None, w)"
| "ensureFolderExists_loop current (part # parts) w =
     (let current' = (if current \<noteq> [] then current @ ''/'' @ part else part)
      in if \<not> adapter_exists w current'
         then (case createFolder current' w of
                 (Some e, w1) \<Rightarrow> (Some e, w1)
               | (None, w1) \<Rightarrow> ensureFolderExists_loop current' parts w1)
         else ensureFolderExists_loop current' parts w)"

definition ensureFolderExists :: "string \<Rightarrow> world \<Rightarrow> thrown option \<times> world" where
  "ensureFolderExists folderPath w =
     (let normalized = normalizePath folderPath
      in if normalized = [] \<or> normalized = ''.'' then (None, w)
         else if adapter_exists w normalized then (None, w)
         else ensureFolderExists_loop [] (filter (\<lambda>part. part \<noteq> []) (split CHR ''/'' normalized)) w)"

text \<open>
  The request \<open>callLlm\<close> builds: the content type, the bearer token only when a key is
  configured, and the body before \<open>JSON.stringify\<close>.
\<close>

definition llm_request :: "DailyNotesDigestSettings \<Rightarrow> ChatMessage list \<Rightarrow> request" where
  "llm_request s messages =
     \<lparr>req_method = ''POST'', url = llmEndpoint s,
      headers = (''Content-Type'', ''application/json'')
                # (if trim (apiKey s) \<noteq> [] then [(''Authorization'', ''Bearer '' @ trim (apiKey s))] else []),
      body = \<lparr>body_model = model s, body_messages = messages, body_temperature = ''0.2''\<rparr>\<rparr>"

text \<open>\<open>response.json?.choices?.[0]?.message?.content\<close>.\<close>

definition response_content :: "jsvalue \<Rightarrow> jsvalue" where
  "response_content j = optChain (optChain (optChain (optChain j ''choices'') ''0'') ''message'') ''content''"

definition callLlm :: "env \<Rightarrow> ChatMessage list \<Rightarrow> world \<Rightarrow> (thrown + string) \<times> world" where
  "callLlm e messages w =
     (let s = settings w
      in if trim (llmEndpoint s) = [] then (Inl (Error ''LLM endpoint is empty''), w)
         else
           (let req = llm_request s messages;
                w1 = emit (RequestUrl req) w
            in case requestUrl e req of
                 Inl err \<Rightarrow> (Inl err, w1)
               | Inr resp \<Rightarrow>
                   if status resp \<noteq> 200
                   then (Inl (Error (''LLM request failed ('' @ show_int (status resp) @ '')'')), w1)
                   else (case response_content (json resp) of
                           JString c \<Rightarrow> (Inr c, w1)
                         | _ \<Rightarrow> (Inl (Error ''Unexpected LLM response shape''), w1))))"

subsection \<open>Day processor\<close>

definition backlink :: "string \<Rightarrow> string" where
  "backlink dateStamp = ''\<newline>\<newline>---\<newline>\<newline>[Original note]('' @ dateStamp @ '')''"

text \<open>The body of the \<open>try\<close> block: \<open>Some\<close> is a value thrown out of it.\<close>

definition processDate_try :: "env \<Rightarrow> string \<Rightarrow> bool \<Rightarrow> string \<Rightarrow> world \<Rightarrow> thrown option \<times> world" where
  "processDate_try e dateStamp force outputPath w =
     (let dailyNotePath = getDailyNotePath (settings w) (clock e) dateStamp
      in if \<not> adapter_exists w dailyNotePath
         then (None, if force then emit (Notice (''Daily note not found: '' @ dailyNotePath)) w else w)
         else
           (case adapter_read w dailyNotePath of
              Inl err \<Rightarrow> (Some err, w)
            | Inr raw \<Rightarrow>
                (let noteContents = trim raw
                 in if noteContents = [] \<or> length noteContents < 20
                    then (None, if force
                                then emit (Notice (''Daily note is empty or nearly empty: '' @ dailyNotePath)) w
                                else w)
                    else
                      (case callLlm e (buildMessages (settings w) dateStamp noteContents) w of
                         (Inl err, w1) \<Rightarrow> (Some err, w1)
                       | (Inr summary, w1) \<Rightarrow>
                           if summary = []
                           then (None, emit (Notice ''LLM returned an empty summary'') w1)
                           else
                             (let finalContent = trim summary @ backlink dateStamp
                              in case ensureFolderExists (outputFolder (settings w1)) w1 of
                                   (Some err, w2) \<Rightarrow> (Some err, w2)
                                 | (None, w2) \<Rightarrow>
                                     (let outputDir = join CHR ''/'' (butlast (split CHR ''/'' outputPath))
                                      in case ensureFolderExists outputDir w2 of
                                           (Some err, w3) \<Rightarrow> (Some err, w3)
                                         | (None, w3) \<Rightarrow>
                                             (let w4 = adapter_write outputPath (trim finalContent @ ''\<newline>'') w3;
                                                  w5 = w4\<lparr>settings := (settings w4)\<lparr>lastProcessedDate := dateStamp\<rparr>\<rparr>;
                                                  w6 = saveSettings w5
                                              in (None, emit (Notice (''Daily summary saved: '' @ outputPath)) w6))))))))"

definition error_message :: "thrown \<Rightarrow> string" where
  "error_message err = (case err of Error m \<Rightarrow> m | NonError s \<Rightarrow> s)"

definition processDateIfNeeded :: "env \<Rightarrow> string \<Rightarrow> bool \<Rightarrow> world \<Rightarrow> thrown option \<times> world" where
  "processDateIfNeeded e dateStamp force w =
     (let outputPath = getSummaryPath (settings w) (clock e) dateStamp
      in if \<not> force \<and> adapter_exists w outputPath then (None, w)
         else
           (case processDate_try e dateStamp force outputPath w of
              (None, w1) \<Rightarrow> (None, w1)
            | (Some err, w1) \<Rightarrow>
                (let message = error_message err;
                     w2 = emit (ConsoleError ''Failed to generate daily summary'' err) w1
                 in (None, emit (Notice (''Daily summary failed: '' @ message)) w2))))"

subsection \<open>Archivist\<close>



fun sortSummaries_loop :: "string \<Rightarrow> string \<Rightarrow> string list \<Rightarrow> world \<Rightarrow> thrown option \<times> world" where
  "sortSummaries_loop baseFolder yesterdayStamp [] w = (None, w)"
| "sortSummaries_loop baseFolder yesterdayStamp (filePath # rest) w =
     (let name = pop_or_empty (split CHR ''/'' filePath)
      in case getSummaryDateStamp name of
           None \<Rightarrow> sortSummaries_loop baseFolder yesterdayStamp rest w
         | Some dateStamp \<Rightarrow>
             if dateStamp = [] \<or> \<not> isDateStampBefore dateStamp yesterdayStamp
             then sortSummaries_loop baseFolder yesterdayStamp rest w
             else
               (let p = getDateParts dateStamp;
                    targetPath = normalizePath (baseFolder @ ''/'' @ tpl (year p) @ ''/'' @ tpl (month p)
                                                @ ''/'' @ dateStamp @ ''_summary.md'')
                in if filePath = targetPath
                   then sortSummaries_loop baseFolder yesterdayStamp rest w
                   else
                     (case ensureFolderExists (baseFolder @ ''/'' @ tpl (year p) @ ''/'' @ tpl (month p)) w of
                        (Some err, w1) \<Rightarrow> (Some err, w1)
                      | (None, w1) \<Rightarrow>
                          (case adapter_rename filePath targetPath w1 of
                             (Some err, w2) \<Rightarrow> (Some err, w2)
                           | (None, w2) \<Rightarrow> sortSummaries_loop baseFolder yesterdayStamp rest w2))))"

definition sortSummaries :: "string \<Rightarrow> world \<Rightarrow> thrown option \<times> world" where
  "sortSummaries yesterdayStamp w =
     (let baseFolder = normalizePath (outputFolder (settings w))
      in if baseFolder = [] \<or> baseFolder = ''.'' then (None, w)
         else if \<not> adapter_exists w baseFolder then (None, w)
         else sortSummaries_loop baseFolder yesterdayStamp (adapter_list w baseFolder) w)"


subsection \<open>Notions used to state the properties\<close>

text \<open>A path with two slashes in a row has a redundant separator.\<close>

fun adjacent_slashes :: "string \<Rightarrow> bool" where
  "adjacent_slashes [] = False"
| "adjacent_slashes [c] = False"
| "adjacent_slashes (c # d # s) = ((c = CHR ''/'' \<and> d = CHR ''/'') \<or> adjacent_slashes (d # s))"

text \<open>
  A relative path stays below the folder it is appended to when none of its segments is
  empty, \<open>.\<close> or \<open>..\<close>.
\<close>

definition plain_segment :: "string \<Rightarrow> bool" where
  "plain_segment seg \<longleftrightarrow> seg \<noteq> [] \<and> seg \<noteq> ''.'' \<and> seg \<noteq> ''..''"

definition stays_below :: "string \<Rightarrow> bool" where
  "stays_below rest \<longleftrightarrow> list_all plain_segment (split CHR ''/'' rest)"

text \<open>
  The words of the specification for the system instruction: every occurrence of the
  placeholder, from left to right, gives way to the day key, copied as it is.
\<close>

function spec_replace_every :: "string \<Rightarrow> string \<Rightarrow> string \<Rightarrow> string" where
  "spec_replace_every placeholder day s =
     (if placeholder \<noteq> [] \<and> prefix placeholder s
      then day @ spec_replace_every placeholder day (drop (length placeholder) s)
      else (case s of [] \<Rightarrow> [] | c # cs \<Rightarrow> c # spec_replace_every placeholder day cs))"
  by pat_completeness auto
termination
  by (relation "measure (\<lambda>(placeholder, day, s). length s)") (auto simp: prefix_def)

text \<open>
  The two kinds of failure the specification names: the configuration error (blank endpoint)
  and the backend errors (status, response shape).
\<close>

definition isConfigError :: "thrown \<Rightarrow> bool" where
  "isConfigError err \<longleftrightarrow> err = Error ''LLM endpoint is empty''"

definition isBackendError :: "thrown \<Rightarrow> bool" where
  "isBackendError err \<longleftrightarrow>
     (case err of
        Error m \<Rightarrow> m = ''Unexpected LLM response shape'' \<or> prefix ''LLM request failed ('' m
      | NonError _ \<Rightarrow> False)"

text \<open>
  The words of the specification for the response: the value the JSON holds at
  \<open>choices[0].message.content\<close>. A name selects the member of an object; an index
  selects the element of an array, or the member an object has under that number.
\<close>

definition spec_member :: "jsvalue \<Rightarrow> string \<Rightarrow> jsvalue option" where
  "spec_member v k = (case v of JObject kvs \<Rightarrow> map_of kvs k | _ \<Rightarrow> None)"

definition spec_element :: "jsvalue \<Rightarrow> nat \<Rightarrow> jsvalue option" where
  "spec_element v i =
     (case v of JArray xs \<Rightarrow> at xs i | JObject kvs \<Rightarrow> map_of kvs (show_nat i) | _ \<Rightarrow> None)"

definition spec_content :: "jsvalue \<Rightarrow> jsvalue option" where
  "spec_content j =
     (case spec_member j ''choices'' of
        None \<Rightarrow> None
      | Some choices \<Rightarrow>
          (case spec_element choices 0 of
             None \<Rightarrow> None
           | Some first \<Rightarrow>
               (case spec_member first ''message'' of
                  None \<Rightarrow> None
                | Some message \<Rightarrow> spec_member message ''content'')))"

definition isString :: "jsvalue \<Rightarrow> bool" where
  "isString v = (case v of JString _ \<Rightarrow> True | _ \<Rightarrow> False)"

text \<open>Kinds of recorded effects.\<close>

definition isNotice :: "effect \<Rightarrow> bool" where
  "isNotice ev = (case ev of Notice _ \<Rightarrow> True | _ \<Rightarrow> False)"

definition isWrite :: "effect \<Rightarrow> bool" where
  "isWrite ev = (case ev of Write _ _ \<Rightarrow> True | _ \<Rightarrow> False)"

definition isRename :: "effect \<Rightarrow> bool" where
  "isRename ev = (case ev of Rename _ _ \<Rightarrow> True | _ \<Rightarrow> False)"

definition isCreateFolder :: "effect \<Rightarrow> bool" where
  "isCreateFolder ev = (case ev of CreateFolder _ \<Rightarrow> True | _ \<Rightarrow> False)"

text \<open>
  A step that at most creates folders: files, settings and saved settings stay, no folder
  disappears, and every new effect is a folder creation.
\<close>

definition only_creates_folders :: "world \<Rightarrow> world \<Rightarrow> bool" where
  "only_creates_folders w w' \<longleftrightarrow>
     files w' = files w \<and> settings w' = settings w \<and> savedData w' = savedData w \<and>
     set (folders w) \<subseteq> set (folders w') \<and>
     length (trace w) \<le> length (trace w') \<and> take (length (trace w)) (trace w') = trace w \<and>
     list_all isCreateFolder (new_events w w')"





text \<open>
  The common shape of the two archivist loops, for the proofs: a plan gives, for a listed
  file, the folder to ensure and the target of the move, or nothing when the file is skipped.
\<close>

fun relocate_loop :: "(string \<Rightarrow> (string \<times> string) option) \<Rightarrow> string list \<Rightarrow> world \<Rightarrow> thrown option \<times> world" where
  "relocate_loop plan [] w = (None, w)"
| "relocate_loop plan (filePath # rest) w =
     (case plan filePath of
        None \<Rightarrow> relocate_loop plan rest w
      | Some (folder, targetPath) \<Rightarrow>
          (case ensureFolderExists folder w of
             (Some err, w1) \<Rightarrow> (Some err, w1)
           | (None, w1) \<Rightarrow>
               (case adapter_rename filePath targetPath w1 of
                  (Some err, w2) \<Rightarrow> (Some err, w2)
                | (None, w2) \<Rightarrow> relocate_loop plan rest w2)))"



definition summaries_plan :: "string \<Rightarrow> string \<Rightarrow> string \<Rightarrow> (string \<times> string) option" where
  "summaries_plan baseFolder yesterdayStamp filePath =
     (case getSummaryDateStamp (pop_or_empty (split CHR ''/'' filePath)) of
        None \<Rightarrow> None
      | Some dateStamp \<Rightarrow>
          if dateStamp = [] \<or> \<not> isDateStampBefore dateStamp yesterdayStamp then None
          else
            (let p = getDateParts dateStamp;
                 targetPath = normalizePath (baseFolder @ ''/'' @ tpl (year p) @ ''/'' @ tpl (month p)
                                             @ ''/'' @ dateStamp @ ''_summary.md'')
             in if filePath = targetPath then None
                else Some (baseFolder @ ''/'' @ tpl (year p) @ ''/'' @ tpl (month p), targetPath)))"


subsection \<open>Concrete inputs\<close>

definition example_settings :: DailyNotesDigestSettings where
  "example_settings =
     \<lparr>dailyNotesFolder = ''Daily'', outputFolder = ''Daily Summaries'',
      llmEndpoint = ''https://example.com/chat'', apiKey = ''test-key'', model = ''gpt-4o-mini'',
      promptTemplate = ''Digest for {{date}}'', checkIntervalMinutes = 60,
      sortDailyNotesAndSummaries = False, lastProcessedDate = []\<rparr>"

definition example_clock :: hostClock where
  "example_clock =
     \<lparr>newDate = \<lparr>getFullYear = 2026, getMonth = 1, getDate = 21, msOfDay = 36000000\<rparr>,
      localTime = (\<lambda>d. d)\<rparr>"

definition example_clock_later :: hostClock where
  "example_clock_later =
     \<lparr>newDate = \<lparr>getFullYear = 2026, getMonth = 1, getDate = 25, msOfDay = 36000000\<rparr>,
      localTime = (\<lambda>d. d)\<rparr>"

definition example_response :: response where
  "example_response =
     \<lparr>status = 200,
      json = JObject [(''choices'', JArray [JObject [(''message'', JObject [(''content'', JString ''Summary text'')])]])]\<rparr>"

definition example_env :: env where
  "example_env = \<lparr>clock = example_clock, requestUrl = (\<lambda>r. Inr example_response)\<rparr>"

definition example_world :: world where
  "example_world =
     \<lparr>files = [(''Daily/2026-02-20.md'', ''# Friday: wrote the plan.'')], folders = [''Daily''],
      settings = example_settings, savedData = None, trace = []\<rparr>"

text \<open>The example again: with the summary already written, and with a note too short to digest.\<close>

definition example_world_done :: world where
  "example_world_done =
     example_world\<lparr>files := files example_world
                        @ [(''Daily Summaries/2026-02-20_summary.md'', ''Summary text\<newline>'')],
                   folders := folders example_world @ [''Daily Summaries'']\<rparr>"

text \<open>A network that is down, and a model that answers with blanks only.\<close>

definition example_env_down :: env where
  "example_env_down = \<lparr>clock = example_clock, requestUrl = (\<lambda>r. Inl (NonError ''net::ERR_CONNECTION_REFUSED''))\<rparr>"

definition example_env_blank :: env where
  "example_env_blank =
     \<lparr>clock = example_clock,
      requestUrl = (\<lambda>r. Inr \<lparr>status = 200,
        json = JObject [(''choices'', JArray [JObject [(''message'', JObject [(''content'', JString ''  '')])]])]\<rparr>)\<rparr>"

text \<open>A vault to archive, with sorting switched on: today is 21 February 2026.\<close>

definition example_archive :: world where
  "example_archive =
     \<lparr>files = [(''Daily/2026-02-10.md'', ''ten''), (''Daily/2026-02-21.md'', ''today''),
               (''Daily/notes.txt'', ''other''),
               (''Daily Summaries/2026-02-10_summary.md'', ''digest of the tenth''),
               (''Daily Summaries/2026-02-20_summary.md'', ''digest of yesterday'')],
      folders = [''Daily'', ''Daily Summaries''],
      settings = example_settings\<lparr>sortDailyNotesAndSummaries := True\<rparr>,
      savedData = None, trace = []\<rparr>"






section \<open>Properties\<close>

subsection \<open>Splitting and joining\<close>

lemma split_not_Nil: "split c s \<noteq> []"
  by (induction s) (auto split: list.splits)

lemma split_no_separator: "c \<notin> set a \<Longrightarrow> split c a = [a]"
  by (induction a) auto

lemma split_append_separator: "c \<notin> set a \<Longrightarrow> split c (a @ c # b) = a # split c b"
  by (induction a) auto

lemma split_Cons_other: "x \<noteq> c \<Longrightarrow> split c (x # xs) = (x # hd (split c xs)) # tl (split c xs)"
  using split_not_Nil [of c xs] by (cases "split c xs") auto

subsection \<open>Date stamps\<close>

lemma not_isDigit_separators:
  "\<not> isDigit CHR ''/''" "\<not> isDigit CHR 0x5C" "\<not> isDigit CHR ''.''" "\<not> isDigit CHR ''-''"
  by (simp_all add: isDigit_def)

lemma length_10_cases:
  assumes "length s = 10"
  obtains c0 c1 c2 c3 c4 c5 c6 c7 c8 c9 where "s = [c0, c1, c2, c3, c4, c5, c6, c7, c8, c9]"
proof -
  from assms have "length s = Suc (Suc (Suc (Suc (Suc (Suc (Suc (Suc (Suc (Suc 0)))))))))"
    by simp
  then show ?thesis
    using that by (auto simp: length_Suc_conv)
qed

text \<open>A stamp is its year, a dash, its month, a dash and its day.\<close>

lemma isDateStamp_pieces:
  assumes "isDateStamp s"
  shows "s = take 4 s @ CHR ''-'' # take 2 (drop 5 s) @ CHR ''-'' # drop 8 s"
    and "length (take 4 s) = 4" and "length (take 2 (drop 5 s)) = 2" and "length (drop 8 s) = 2"
    and "list_all isDigit (take 4 s)" and "list_all isDigit (take 2 (drop 5 s))"
    and "list_all isDigit (drop 8 s)"
proof -
  from assms have len: "length s = 10" by (simp add: isDateStamp_def)
  then obtain c0 c1 c2 c3 c4 c5 c6 c7 c8 c9 where s: "s = [c0, c1, c2, c3, c4, c5, c6, c7, c8, c9]"
    by (rule length_10_cases)
  from assms have "s ! 4 = CHR ''-''" "s ! 7 = CHR ''-''" by (simp_all add: isDateStamp_def)
  then have "c4 = CHR ''-''" "c7 = CHR ''-''" by (simp_all add: s)
  then show "s = take 4 s @ CHR ''-'' # take 2 (drop 5 s) @ CHR ''-'' # drop 8 s" by (simp add: s)
  show "length (take 4 s) = 4" "length (take 2 (drop 5 s)) = 2" "length (drop 8 s) = 2"
    using len by simp_all
  show "list_all isDigit (take 4 s)" "list_all isDigit (take 2 (drop 5 s))"
    "list_all isDigit (drop 8 s)"
    using assms by (simp_all add: isDateStamp_def)
qed

lemma digits_free_of:
  assumes "list_all isDigit t" "\<not> isDigit c"
  shows "c \<notin> set t"
  using assms by (auto simp: list_all_iff)

lemma getDateParts_stamp:
  assumes "isDateStamp s"
  shows "getDateParts s = \<lparr>year = Some (take 4 s), month = Some (take 2 (drop 5 s))\<rparr>"
proof -
  define y m d where "y = take 4 s" and "m = take 2 (drop 5 s)" and "d = drop 8 s"
  note p = isDateStamp_pieces [OF assms, folded y_def m_def d_def]
  have "CHR ''-'' \<notin> set y" "CHR ''-'' \<notin> set m"
    using digits_free_of [OF p(5) not_isDigit_separators(4)]
      digits_free_of [OF p(6) not_isDigit_separators(4)] by simp_all
  then have "split CHR ''-'' (y @ CHR ''-'' # m @ CHR ''-'' # d) = y # m # split CHR ''-'' d"
    by (simp add: split_append_separator)
  with p(1) have "split CHR ''-'' s = y # m # split CHR ''-'' d" by simp
  then show ?thesis
    by (simp add: getDateParts_def y_def m_def)
qed

lemma stamp_free_of:
  assumes "isDateStamp s" "\<not> isDigit c" "c \<noteq> CHR ''-''"
  shows "c \<notin> set s"
proof -
  note p = isDateStamp_pieces [OF assms(1)]
  have "c \<notin> set (take 4 s @ CHR ''-'' # take 2 (drop 5 s) @ CHR ''-'' # drop 8 s)"
    using digits_free_of [OF p(5) assms(2)] digits_free_of [OF p(6) assms(2)]
      digits_free_of [OF p(7) assms(2)] assms(3) by simp
  with p(1) show ?thesis by simp
qed

lemma getDateParts_year: "year (getDateParts s) \<noteq> None"
  using split_not_Nil [of "CHR ''-''" s]
  by (cases "split CHR ''-'' s") (simp_all add: getDateParts_def Let_def)


subsection \<open>Evaluating the clock\<close>

lemma digit_char_values:
  "digit_char 0 = CHR ''0''" "digit_char 1 = CHR ''1''" "digit_char 2 = CHR ''2''"
  "digit_char 3 = CHR ''3''" "digit_char 4 = CHR ''4''" "digit_char 5 = CHR ''5''"
  "digit_char 6 = CHR ''6''" "digit_char 7 = CHR ''7''" "digit_char 8 = CHR ''8''"
  "digit_char 9 = CHR ''9''"
  "digit_char (Suc 0) = CHR ''1''" "digit_char (Suc (Suc 0)) = CHR ''2''"
  by code_simp+

declare show_nat.simps [simp del] rollBack.simps [simp del] rollForward.simps [simp del]

lemma getYesterdayStamp_eq:
  "getYesterdayStamp host =
     getLocalDateStamp (localTime host (makeDay (newDate host) (int (getDate (newDate host)) - 1)))"
  by (simp add: getYesterdayStamp_def setDate_def Let_def)

lemmas clock_defs = getLocalDateStamp_def getYesterdayStamp_eq makeDay_def daysInMonth_def
  isLeapYear_def padStart_def show_int_def digit_char_values Let_def
  show_nat.simps rollBack.simps rollForward.simps


subsection \<open>Path normalisation\<close>

lemma collapse_slashes_hd: "s \<noteq> [] \<Longrightarrow> collapse_slashes s \<noteq> [] \<and> hd (collapse_slashes s) = hd s"
  by (induction s rule: collapse_slashes.induct) auto

lemma collapse_slashes_clean: "\<not> adjacent_slashes (collapse_slashes s)"
proof (induction s rule: collapse_slashes.induct)
  case (3 c d s)
  then show ?case
    using collapse_slashes_hd [of "d # s"]
    by (cases "collapse_slashes (d # s)") auto
qed simp_all

lemma set_collapse_slashes: "set (collapse_slashes s) \<subseteq> set s"
  by (induction s rule: collapse_slashes.induct) auto

lemma no_backslash_normalizePath: "CHR 0x5C \<notin> set (normalizePath v)"
proof -
  have "CHR 0x5C \<notin> set (backslashes_to_slashes v)"
    by (auto simp: backslashes_to_slashes_def)
  then show ?thesis
    using set_collapse_slashes [of "backslashes_to_slashes v"] by (auto simp: normalizePath_def)
qed

lemma no_adjacent_slashes_normalizePath: "\<not> adjacent_slashes (normalizePath v)"
  by (simp add: normalizePath_def collapse_slashes_clean)

lemma collapse_slashes_fix: "\<not> adjacent_slashes s \<Longrightarrow> collapse_slashes s = s"
  by (induction s rule: collapse_slashes.induct) auto

lemma collapse_slashes_Cons:
  "collapse_slashes (c # s) =
     (if c = CHR ''/'' \<and> s \<noteq> [] \<and> hd s = CHR ''/'' then collapse_slashes s
      else c # collapse_slashes s)"
  by (cases s) auto

lemma collapse_slashes_Nil_iff: "collapse_slashes s = [] \<longleftrightarrow> s = []"
  using collapse_slashes_hd [of s] by auto

lemma hd_collapse_slashes_append: "hd (collapse_slashes s @ b) = hd (s @ b)"
  using collapse_slashes_hd [of s] by (cases "s = []") (auto simp: hd_append)

lemma collapse_slashes_append:
  "collapse_slashes (collapse_slashes a @ b) = collapse_slashes (a @ b)"
proof (induction a)
  case Nil
  then show ?case by simp
next
  case (Cons c s)
  show ?case
  proof (cases "c = CHR ''/'' \<and> s \<noteq> [] \<and> hd s = CHR ''/''")
    case True
    then have "collapse_slashes ((c # s) @ b) = collapse_slashes (s @ b)"
      by (cases s) auto
    moreover from True have "collapse_slashes (c # s) = collapse_slashes s"
      by (cases s) auto
    ultimately show ?thesis using Cons by simp
  next
    case False
    then have l: "collapse_slashes (c # s) = c # collapse_slashes s"
      by (cases s) auto
    have "collapse_slashes (c # collapse_slashes s @ b) =
            (if c = CHR ''/'' \<and> collapse_slashes s @ b \<noteq> [] \<and> hd (collapse_slashes s @ b) = CHR ''/''
             then collapse_slashes (collapse_slashes s @ b)
             else c # collapse_slashes (collapse_slashes s @ b))"
      by (rule collapse_slashes_Cons)
    also have "\<dots> =
            (if c = CHR ''/'' \<and> s @ b \<noteq> [] \<and> hd (s @ b) = CHR ''/''
             then collapse_slashes (s @ b) else c # collapse_slashes (s @ b))"
      by (simp add: Cons hd_collapse_slashes_append collapse_slashes_Nil_iff)
    also have "\<dots> = collapse_slashes (c # s @ b)"
      by (rule collapse_slashes_Cons [symmetric])
    finally show ?thesis using l by simp
  qed
qed

lemma backslashes_to_slashes_append:
  "backslashes_to_slashes (a @ b) = backslashes_to_slashes a @ backslashes_to_slashes b"
  by (simp add: backslashes_to_slashes_def)

lemma backslashes_to_slashes_fix:
  "CHR 0x5C \<notin> set s \<Longrightarrow> backslashes_to_slashes s = s"
  by (induction s) (auto simp: backslashes_to_slashes_def)

lemma normalizePath_append:
  "normalizePath (normalizePath a @ b) = normalizePath (a @ b)"
proof -
  have "backslashes_to_slashes (normalizePath a) = normalizePath a"
    by (rule backslashes_to_slashes_fix) (rule no_backslash_normalizePath)
  then show ?thesis
    by (simp add: normalizePath_def collapse_slashes_append backslashes_to_slashes_append)
qed

lemma collapse_slashes_tail:
  assumes "rest \<noteq> []" "hd rest \<noteq> CHR ''/''" "\<not> adjacent_slashes rest"
  shows "collapse_slashes (a @ rest) = collapse_slashes a @ rest"
  using assms
proof (induction a rule: collapse_slashes.induct)
  case 1
  then show ?case by (simp add: collapse_slashes_fix)
next
  case (2 c)
  then show ?case by (cases rest) (auto simp: collapse_slashes_fix)
next
  case (3 c d s)
  then show ?case by auto
qed

lemma normalizePath_tail:
  assumes "rest \<noteq> []" "hd rest \<noteq> CHR ''/''" "\<not> adjacent_slashes rest" "CHR 0x5C \<notin> set rest"
  shows "normalizePath (a @ rest) = normalizePath a @ rest"
  using assms
  by (simp add: normalizePath_def backslashes_to_slashes_fix collapse_slashes_tail
      backslashes_to_slashes_append)

lemma adjacent_slashes_Cons:
  "adjacent_slashes (c # s) \<longleftrightarrow> (c = CHR ''/'' \<and> s \<noteq> [] \<and> hd s = CHR ''/'') \<or> adjacent_slashes s"
  by (cases s) auto

lemma adjacent_slashes_free: "CHR ''/'' \<notin> set s \<Longrightarrow> \<not> adjacent_slashes s"
  by (induction s) (auto simp: adjacent_slashes_Cons simp del: adjacent_slashes.simps(3))

lemma adjacent_slashes_segment:
  assumes "CHR ''/'' \<notin> set a" "a \<noteq> []" "b \<noteq> []" "hd b \<noteq> CHR ''/''"
  shows "adjacent_slashes (a @ CHR ''/'' # b) \<longleftrightarrow> adjacent_slashes b"
  using assms
proof (induction a)
  case Nil
  then show ?case by simp
next
  case (Cons x a)
  show ?case
  proof (cases "a = []")
    case True
    with Cons.prems show ?thesis
      by (auto simp: adjacent_slashes_Cons simp del: adjacent_slashes.simps(3))
  next
    case False
    with Cons show ?thesis
      by (auto simp: adjacent_slashes_Cons [of x] hd_append simp del: adjacent_slashes.simps(3))
  qed
qed

text \<open>A short relative path of one or three segments, none of them special.\<close>

lemma one_segment_below:
  assumes "CHR ''/'' \<notin> set a" "CHR 0x5C \<notin> set a" "2 < length a"
  shows "hd a \<noteq> CHR ''/'' \<and> \<not> adjacent_slashes a \<and> CHR 0x5C \<notin> set a \<and> stays_below a"
proof -
  from assms(3) have ne: "a \<noteq> []" "a \<noteq> ''.''" "a \<noteq> ''..''" by auto
  from ne(1) assms(1) have "hd a \<noteq> CHR ''/''" by (cases a) auto
  moreover have "stays_below a"
    using ne by (simp add: stays_below_def split_no_separator [OF assms(1)] plain_segment_def)
  ultimately show ?thesis
    using assms adjacent_slashes_free by blast
qed

lemma three_segments_below:
  assumes y: "CHR ''/'' \<notin> set y" "CHR 0x5C \<notin> set y" "2 < length y"
    and m: "CHR ''/'' \<notin> set m" "CHR 0x5C \<notin> set m" "CHR ''.'' \<notin> set m" "m \<noteq> []"
    and a: "CHR ''/'' \<notin> set a" "CHR 0x5C \<notin> set a" "2 < length a"
  defines "rest \<equiv> y @ ''/'' @ m @ ''/'' @ a"
  shows "hd rest \<noteq> CHR ''/'' \<and> \<not> adjacent_slashes rest \<and> CHR 0x5C \<notin> set rest \<and> stays_below rest"
proof -
  from y(3) have yne: "y \<noteq> []" "y \<noteq> ''.''" "y \<noteq> ''..''" by auto
  from a(3) have ane: "a \<noteq> []" "a \<noteq> ''.''" "a \<noteq> ''..''" by auto
  from m(3,4) have mne: "m \<noteq> ''.''" "m \<noteq> ''..''" by auto
  have hd_a: "hd a \<noteq> CHR ''/''" using ane(1) a(1) by (cases a) auto
  have hd_m: "hd (m @ CHR ''/'' # a) \<noteq> CHR ''/''" using m(1,4) by (cases m) auto
  have "hd rest \<noteq> CHR ''/''" using yne(1) y(1) by (cases y) (auto simp: rest_def)
  moreover have "\<not> adjacent_slashes rest"
  proof -
    have "adjacent_slashes rest \<longleftrightarrow> adjacent_slashes (m @ CHR ''/'' # a)"
      unfolding rest_def using adjacent_slashes_segment [OF y(1) yne(1) _ hd_m] by simp
    also have "\<dots> \<longleftrightarrow> adjacent_slashes a"
      using adjacent_slashes_segment [OF m(1) m(4) ane(1) hd_a] .
    finally show ?thesis using adjacent_slashes_free [OF a(1)] by simp
  qed
  moreover have "CHR 0x5C \<notin> set rest"
    using y(2) m(2) a(2) by (simp add: rest_def)
  moreover have "stays_below rest"
  proof -
    have "split CHR ''/'' rest = [y, m, a]"
      by (simp add: rest_def split_append_separator [OF y(1)] split_append_separator [OF m(1)]
          split_no_separator [OF a(1)])
    then show ?thesis
      using yne m(4) mne ane by (simp add: stays_below_def plain_segment_def)
  qed
  ultimately show ?thesis by blast
qed

lemma normalizePath_under:
  assumes "hd rest \<noteq> CHR ''/'' \<and> \<not> adjacent_slashes rest \<and> CHR 0x5C \<notin> set rest \<and> stays_below rest"
  shows "normalizePath (folder @ ''/'' @ rest) = normalizePath (folder @ ''/'') @ rest"
proof -
  from assms have "rest \<noteq> []"
    by (auto simp: stays_below_def plain_segment_def)
  with assms have "normalizePath ((folder @ ''/'') @ rest) = normalizePath (folder @ ''/'') @ rest"
    by (intro normalizePath_tail) auto
  then show ?thesis by simp
qed


subsection \<open>Date parts\<close>

text \<open>
  Counterexample to claim C9 as stated: on a key that is not in canonical form,
  \<open>getDateParts\<close> neither fails nor returns \<open>null\<close>. It returns an object whose year is the
  whole key and whose month is \<open>undefined\<close>.
\<close>

theorem getDateParts_malformed_counterexample:
  "\<not> isDateStamp ''../../etc'' \<and>
   getDateParts ''../../etc'' = \<lparr>year = Some ''../../etc'', month = None\<rparr>"
  by code_simp

text \<open>
  Claim C9, amended. \<open>getDateParts\<close> performs no validation: it always returns an object
  whose year is a string (the text before the first \<open>-\<close>). On a key in canonical form
  \<open>YYYY-MM-DD\<close> the year is the four digits and the month the two digits, zero padding
  included.
\<close>

theorem getDateParts_returns_parts:
  "year (getDateParts s) \<noteq> None \<and>
   (isDateStamp s \<longrightarrow>
      getDateParts s = \<lparr>year = Some (take 4 s), month = Some (take 2 (drop 5 s))\<rparr> \<and>
      length (take 4 s) = 4 \<and> list_all isDigit (take 4 s) \<and>
      length (take 2 (drop 5 s)) = 2 \<and> list_all isDigit (take 2 (drop 5 s)))"
  using getDateParts_year [of s] getDateParts_stamp [of s] isDateStamp_pieces(2,3,5,6) [of s]
  by blast

lemma example_stamp: "isDateStamp ''2026-02-20''"
  by code_simp

text \<open>The amended claim C9 at the key \<open>2026-02-20\<close>.\<close>

theorem getDateParts_returns_parts_witness:
  "isDateStamp ''2026-02-20'' \<and>
   getDateParts ''2026-02-20'' = \<lparr>year = Some ''2026'', month = Some ''02''\<rparr>"
  using getDateParts_returns_parts [of "''2026-02-20''"] example_stamp
  by simp

subsection \<open>Paths of canonical keys\<close>

text \<open>
  Counterexample to claim C5 as stated: a day key with \<open>..\<close> segments is neither rejected
  nor sanitised; both resolvers paste it into the path, which then leaves the configured
  folder.
\<close>

theorem path_traversal_counterexample:
  "\<not> isDateStamp ''../../etc'' \<and>
   getSummaryPath example_settings example_clock ''../../etc'' = ''Daily Summaries/../../etc_summary.md'' \<and>
   getDailyNotePath example_settings example_clock ''../../etc'' = ''Daily/../../etc.md'' \<and>
   \<not> stays_below ''../../etc_summary.md'' \<and> \<not> stays_below ''../../etc.md''"
proof -
  have "\<not> isDateStamp ''../../etc''" "\<not> stays_below ''../../etc_summary.md''"
    "\<not> stays_below ''../../etc.md''"
    by code_simp+
  moreover have
    "getSummaryPath example_settings example_clock ''../../etc'' = ''Daily Summaries/../../etc_summary.md''"
    "getDailyNotePath example_settings example_clock ''../../etc'' = ''Daily/../../etc.md''"
    by (simp_all add: getSummaryPath_def getDailyNotePath_def example_settings_def
        normalizePath_def backslashes_to_slashes_def)
  ultimately show ?thesis by simp
qed

lemma flat_tail_facts:
  assumes "isDateStamp d" "ext = ''.md'' \<or> ext = ''_summary.md''"
  shows "hd (d @ ext) \<noteq> CHR ''/'' \<and> \<not> adjacent_slashes (d @ ext) \<and>
         CHR 0x5C \<notin> set (d @ ext) \<and> stays_below (d @ ext)"
proof (rule one_segment_below)
  have "CHR ''/'' \<notin> set d" "CHR 0x5C \<notin> set d"
    using stamp_free_of [OF assms(1) not_isDigit_separators(1)]
      stamp_free_of [OF assms(1) not_isDigit_separators(2)] by simp_all
  with assms(2) show "CHR ''/'' \<notin> set (d @ ext)" "CHR 0x5C \<notin> set (d @ ext)" by auto
  from assms(1) show "2 < length (d @ ext)" by (simp add: isDateStamp_def)
qed

lemma nested_tail_facts:
  assumes "isDateStamp d" "ext = ''.md'' \<or> ext = ''_summary.md''"
  defines "rest \<equiv> tpl (year (getDateParts d)) @ ''/'' @ tpl (month (getDateParts d)) @ ''/'' @ d @ ext"
  shows "hd rest \<noteq> CHR ''/'' \<and> \<not> adjacent_slashes rest \<and> CHR 0x5C \<notin> set rest \<and> stays_below rest"
proof -
  note p = isDateStamp_pieces [OF assms(1)]
  have r: "rest = take 4 d @ ''/'' @ take 2 (drop 5 d) @ ''/'' @ (d @ ext)"
    by (simp add: rest_def getDateParts_stamp [OF assms(1)] tpl_def)
  have d: "CHR ''/'' \<notin> set d" "CHR 0x5C \<notin> set d"
    using stamp_free_of [OF assms(1) not_isDigit_separators(1)]
      stamp_free_of [OF assms(1) not_isDigit_separators(2)] by simp_all
  have m: "take 2 (drop 5 d) \<noteq> []" using p(3) by auto
  show ?thesis
    unfolding r
  proof (rule three_segments_below)
    show "CHR ''/'' \<notin> set (take 4 d)" "CHR 0x5C \<notin> set (take 4 d)"
      using digits_free_of [OF p(5) not_isDigit_separators(1)]
        digits_free_of [OF p(5) not_isDigit_separators(2)] by simp_all
    show "2 < length (take 4 d)" using p(2) by simp
    show "CHR ''/'' \<notin> set (take 2 (drop 5 d))" "CHR 0x5C \<notin> set (take 2 (drop 5 d))"
      "CHR ''.'' \<notin> set (take 2 (drop 5 d))"
      using digits_free_of [OF p(6) not_isDigit_separators(1)]
        digits_free_of [OF p(6) not_isDigit_separators(2)]
        digits_free_of [OF p(6) not_isDigit_separators(3)] by simp_all
    show "take 2 (drop 5 d) \<noteq> []" by (rule m)
    from d assms(2) show "CHR ''/'' \<notin> set (d @ ext)" "CHR 0x5C \<notin> set (d @ ext)" by auto
    from assms(1) show "2 < length (d @ ext)" by (simp add: isDateStamp_def)
  qed
qed

lemma adjacent_slashes_append_free:
  "CHR ''/'' \<notin> set b \<Longrightarrow> adjacent_slashes (a @ b) = adjacent_slashes a"
proof (induction a)
  case Nil
  then show ?case by (simp add: adjacent_slashes_free)
next
  case (Cons c a)
  then show ?case by (cases a; cases b) (auto simp: adjacent_slashes_Cons)
qed

text \<open>A key without a redundant separator stands in the flat path as it is.\<close>

lemma flat_path_verbatim:
  assumes "\<not> prefix ''/'' d" "\<not> adjacent_slashes d" "CHR 0x5C \<notin> set d"
    and ext: "ext = ''.md'' \<or> ext = ''_summary.md''"
  shows "normalizePath (folder @ ''/'' @ d @ ext) = normalizePath (folder @ ''/'') @ d @ ext"
proof -
  from ext have e: "CHR ''/'' \<notin> set ext" "CHR 0x5C \<notin> set ext" "ext \<noteq> []"
    "hd ext \<noteq> CHR ''/''" by auto
  have "hd (d @ ext) \<noteq> CHR ''/''"
    using assms(1) e(4) by (cases d) simp_all
  moreover have "\<not> adjacent_slashes (d @ ext)"
    using assms(2) by (simp add: adjacent_slashes_append_free [OF e(1)])
  moreover have "CHR 0x5C \<notin> set (d @ ext)" using assms(3) e(2) by simp
  moreover have "d @ ext \<noteq> []" using e(3) by simp
  ultimately have "normalizePath ((folder @ ''/'') @ (d @ ext)) = normalizePath (folder @ ''/'') @ (d @ ext)"
    by (intro normalizePath_tail)
  then show ?thesis by simp
qed

text \<open>
  Claim C5, amended. Every path the resolvers return, for any key, has no backslash and no
  two separators in a row. For every day key in canonical form, the note path and the
  summary path are the normalised folder (with its separator) followed by segments none of
  which is empty, \<open>.\<close> or \<open>..\<close>. No key is rejected or rewritten: with sorting off, a key
  that does not begin with a separator and has no backslash and no two separators in a row
  stands in both paths as it is, between the normalised folder and the extension.
\<close>

theorem canonical_key_paths_stay_below:
  "\<not> adjacent_slashes (getDailyNotePath s now d) \<and> CHR 0x5C \<notin> set (getDailyNotePath s now d) \<and>
   \<not> adjacent_slashes (getSummaryPath s now d) \<and> CHR 0x5C \<notin> set (getSummaryPath s now d) \<and>
   (isDateStamp d \<longrightarrow>
      (\<exists>rest. getDailyNotePath s now d = normalizePath (dailyNotesFolder s @ ''/'') @ rest \<and> stays_below rest) \<and>
      (\<exists>rest. getSummaryPath s now d = normalizePath (outputFolder s @ ''/'') @ rest \<and> stays_below rest)) \<and>
   (\<not> sortDailyNotesAndSummaries s \<and> \<not> prefix ''/'' d \<and> \<not> adjacent_slashes d \<and> CHR 0x5C \<notin> set d \<longrightarrow>
      getDailyNotePath s now d = normalizePath (dailyNotesFolder s @ ''/'') @ d @ ''.md'' \<and>
      getSummaryPath s now d = normalizePath (outputFolder s @ ''/'') @ d @ ''_summary.md'')"
proof -
  have c: "\<not> adjacent_slashes (getDailyNotePath s now d) \<and> CHR 0x5C \<notin> set (getDailyNotePath s now d) \<and>
         \<not> adjacent_slashes (getSummaryPath s now d) \<and> CHR 0x5C \<notin> set (getSummaryPath s now d)"
    by (simp add: getDailyNotePath_def getSummaryPath_def Let_def
        no_adjacent_slashes_normalizePath no_backslash_normalizePath)
  have k: "(\<exists>rest. getDailyNotePath s now d = normalizePath (dailyNotesFolder s @ ''/'') @ rest \<and> stays_below rest) \<and>
      (\<exists>rest. getSummaryPath s now d = normalizePath (outputFolder s @ ''/'') @ rest \<and> stays_below rest)"
    if st: "isDateStamp d"
  proof -
    have fn: "hd (d @ ''.md'') \<noteq> CHR ''/'' \<and> \<not> adjacent_slashes (d @ ''.md'') \<and>
           CHR 0x5C \<notin> set (d @ ''.md'') \<and> stays_below (d @ ''.md'')"
      by (rule flat_tail_facts [OF st]) simp
    have fs: "hd (d @ ''_summary.md'') \<noteq> CHR ''/'' \<and> \<not> adjacent_slashes (d @ ''_summary.md'') \<and>
           CHR 0x5C \<notin> set (d @ ''_summary.md'') \<and> stays_below (d @ ''_summary.md'')"
      by (rule flat_tail_facts [OF st]) simp
    define nn where "nn = tpl (year (getDateParts d)) @ ''/'' @ tpl (month (getDateParts d)) @ ''/'' @ d @ ''.md''"
    define ns where "ns = tpl (year (getDateParts d)) @ ''/'' @ tpl (month (getDateParts d)) @ ''/'' @ d @ ''_summary.md''"
    have gn: "hd nn \<noteq> CHR ''/'' \<and> \<not> adjacent_slashes nn \<and> CHR 0x5C \<notin> set nn \<and> stays_below nn"
      unfolding nn_def by (rule nested_tail_facts [OF st]) simp
    have gs: "hd ns \<noteq> CHR ''/'' \<and> \<not> adjacent_slashes ns \<and> CHR 0x5C \<notin> set ns \<and> stays_below ns"
      unfolding ns_def by (rule nested_tail_facts [OF st]) simp
    have n: "\<exists>rest. getDailyNotePath s now d = normalizePath (dailyNotesFolder s @ ''/'') @ rest \<and> stays_below rest"
    proof (cases "sortDailyNotesAndSummaries s \<and> d \<noteq> getLocalDateStamp (newDate now)")
      case True
      then have "getDailyNotePath s now d = normalizePath (dailyNotesFolder s @ ''/'' @ nn)"
        by (simp add: getDailyNotePath_def Let_def nn_def)
      with normalizePath_under [OF gn] gn show ?thesis by auto
    next
      case False
      then have "getDailyNotePath s now d = normalizePath (dailyNotesFolder s @ ''/'' @ (d @ ''.md''))"
        by (auto simp: getDailyNotePath_def Let_def)
      with normalizePath_under [OF fn] fn show ?thesis by auto
    qed
    have m: "\<exists>rest. getSummaryPath s now d = normalizePath (outputFolder s @ ''/'') @ rest \<and> stays_below rest"
    proof (cases "sortDailyNotesAndSummaries s \<and> isDateStampBefore d (getYesterdayStamp now)")
      case True
      then have "getSummaryPath s now d = normalizePath (outputFolder s @ ''/'' @ ns)"
        by (simp add: getSummaryPath_def Let_def ns_def)
      with normalizePath_under [OF gs] gs show ?thesis by auto
    next
      case False
      then have "getSummaryPath s now d = normalizePath (outputFolder s @ ''/'' @ (d @ ''_summary.md''))"
        by (auto simp: getSummaryPath_def Let_def)
      with normalizePath_under [OF fs] fs show ?thesis by auto
    qed
    from n m show ?thesis by blast
  qed
  have v: "getDailyNotePath s now d = normalizePath (dailyNotesFolder s @ ''/'') @ d @ ''.md'' \<and>
      getSummaryPath s now d = normalizePath (outputFolder s @ ''/'') @ d @ ''_summary.md''"
    if a: "\<not> sortDailyNotesAndSummaries s \<and> \<not> prefix ''/'' d \<and> \<not> adjacent_slashes d \<and> CHR 0x5C \<notin> set d"
  proof -
    from a have p: "\<not> prefix ''/'' d" "\<not> adjacent_slashes d" "CHR 0x5C \<notin> set d" by simp_all
    from a have "getDailyNotePath s now d = normalizePath (dailyNotesFolder s @ ''/'' @ d @ ''.md'')"
      "getSummaryPath s now d = normalizePath (outputFolder s @ ''/'' @ d @ ''_summary.md'')"
      by (simp_all add: getDailyNotePath_def getSummaryPath_def)
    with flat_path_verbatim [OF p, of "''.md''" "dailyNotesFolder s"]
      flat_path_verbatim [OF p, of "''_summary.md''" "outputFolder s"]
    show ?thesis by simp
  qed
  from c k v show ?thesis by blast
qed

lemma example_yesterday:
  "getYesterdayStamp example_clock_later = ''2026-02-24''"
  by (simp add: example_clock_later_def clock_defs)

lemma example_paths:
  "getDailyNotePath example_settings example_clock ''2026-02-20'' = ''Daily/2026-02-20.md''"
  "getSummaryPath example_settings example_clock ''2026-02-20'' = ''Daily Summaries/2026-02-20_summary.md''"
  "getSummaryPath (example_settings\<lparr>sortDailyNotesAndSummaries := True\<rparr>)
     example_clock_later ''2026-02-20''
   = ''Daily Summaries/2026/02/2026-02-20_summary.md''"
  by (simp_all add: getDailyNotePath_def getSummaryPath_def example_yesterday isDateStampBefore_def
      example_settings_def getDateParts_def tpl_def normalizePath_def backslashes_to_slashes_def)

lemma example_key_plain:
  "\<not> sortDailyNotesAndSummaries example_settings" "\<not> prefix ''/'' ''2026-02-20''"
  "\<not> adjacent_slashes ''2026-02-20''" "CHR 0x5C \<notin> set ''2026-02-20''"
  by (simp_all add: example_settings_def)

text \<open>The amended claim C5 at the key \<open>2026-02-20\<close>, flat and nested.\<close>

theorem canonical_key_paths_stay_below_witness:
  "isDateStamp ''2026-02-20'' \<and>
   \<not> sortDailyNotesAndSummaries example_settings \<and> \<not> prefix ''/'' ''2026-02-20'' \<and>
   \<not> adjacent_slashes ''2026-02-20'' \<and> CHR 0x5C \<notin> set ''2026-02-20'' \<and>
   getDailyNotePath example_settings example_clock ''2026-02-20'' = ''Daily/2026-02-20.md'' \<and>
   getSummaryPath example_settings example_clock ''2026-02-20'' = ''Daily Summaries/2026-02-20_summary.md'' \<and>
   getSummaryPath (example_settings\<lparr>sortDailyNotesAndSummaries := True\<rparr>)
     example_clock_later ''2026-02-20''
   = ''Daily Summaries/2026/02/2026-02-20_summary.md'' \<and>
   \<not> adjacent_slashes ''Daily/2026-02-20.md'' \<and>
   \<not> adjacent_slashes ''Daily Summaries/2026/02/2026-02-20_summary.md'' \<and>
   (\<exists>rest. ''Daily Summaries/2026/02/2026-02-20_summary.md''
             = normalizePath (outputFolder (example_settings\<lparr>sortDailyNotesAndSummaries := True\<rparr>) @ ''/'') @ rest \<and>
           stays_below rest) \<and>
   ''Daily/2026-02-20.md'' = normalizePath (dailyNotesFolder example_settings @ ''/'') @ ''2026-02-20'' @ ''.md''"
  using canonical_key_paths_stay_below [of example_settings example_clock "''2026-02-20''"]
    canonical_key_paths_stay_below [of "example_settings\<lparr>sortDailyNotesAndSummaries := True\<rparr>"
      example_clock_later "''2026-02-20''"]
    example_stamp example_key_plain
  by (simp only: example_paths) blast


subsection \<open>The prompt\<close>

declare replaceAll_from.simps [simp del] spec_replace_every.simps [simp del]




lemma stamp_no_dollar: "isDateStamp d \<Longrightarrow> CHR ''$'' \<notin> set d"
  by (rule stamp_free_of) (simp_all add: isDigit_def)





subsection \<open>The call\<close>

lemma callLlm_blank:
  "trim (llmEndpoint (settings w)) = [] \<Longrightarrow> callLlm e ms w = (Inl (Error ''LLM endpoint is empty''), w)"
  by (simp add: callLlm_def)

lemma callLlm_error:
  assumes "trim (llmEndpoint (settings w)) \<noteq> []" "requestUrl e (llm_request (settings w) ms) = Inl err"
  shows "callLlm e ms w = (Inl err, emit (RequestUrl (llm_request (settings w) ms)) w)"
  using assms by (simp add: callLlm_def Let_def)

lemma callLlm_status:
  assumes "trim (llmEndpoint (settings w)) \<noteq> []" "requestUrl e (llm_request (settings w) ms) = Inr resp"
    "status resp \<noteq> 200"
  shows "callLlm e ms w = (Inl (Error (''LLM request failed ('' @ show_int (status resp) @ '')'')),
                           emit (RequestUrl (llm_request (settings w) ms)) w)"
  using assms by (simp add: callLlm_def Let_def)

lemma callLlm_string:
  assumes "trim (llmEndpoint (settings w)) \<noteq> []" "requestUrl e (llm_request (settings w) ms) = Inr resp"
    "status resp = 200" "response_content (json resp) = JString c"
  shows "callLlm e ms w = (Inr c, emit (RequestUrl (llm_request (settings w) ms)) w)"
  using assms by (simp add: callLlm_def Let_def)

lemma callLlm_shape:
  assumes "trim (llmEndpoint (settings w)) \<noteq> []" "requestUrl e (llm_request (settings w) ms) = Inr resp"
    "status resp = 200" "\<not> isString (response_content (json resp))"
  shows "callLlm e ms w = (Inl (Error ''Unexpected LLM response shape''),
                           emit (RequestUrl (llm_request (settings w) ms)) w)"
  using assms by (cases "response_content (json resp)") (simp_all add: callLlm_def Let_def isString_def)

lemma isString_iff: "isString v \<longleftrightarrow> (\<exists>c. v = JString c)"
  by (cases v) (simp_all add: isString_def)

lemma new_events_emit: "new_events w (emit ev w) = [ev]"
  by (simp add: new_events_def emit_def)

text \<open>The contract of the call, in terms of the optional chain of the code.\<close>

lemma callLlm_by_content:
  "(trim (llmEndpoint (settings w)) = [] \<longrightarrow>
      (\<exists>err. callLlm e ms w = (Inl err, w) \<and> isConfigError err)) \<and>
   (trim (llmEndpoint (settings w)) \<noteq> [] \<and> requestUrl e (llm_request (settings w) ms) = Inr resp \<longrightarrow>
      new_events w (snd (callLlm e ms w)) = [RequestUrl (llm_request (settings w) ms)] \<and>
      ((\<exists>err. fst (callLlm e ms w) = Inl err \<and> isBackendError err) \<longleftrightarrow>
         (status resp \<noteq> 200 \<or> \<not> isString (response_content (json resp)))) \<and>
      (\<forall>c. status resp = 200 \<and> response_content (json resp) = JString c \<longrightarrow>
         fst (callLlm e ms w) = Inr c))"
proof (intro conjI impI)
  assume "trim (llmEndpoint (settings w)) = []"
  then show "\<exists>err. callLlm e ms w = (Inl err, w) \<and> isConfigError err"
    by (simp add: callLlm_blank isConfigError_def)
next
  assume a: "trim (llmEndpoint (settings w)) \<noteq> [] \<and> requestUrl e (llm_request (settings w) ms) = Inr resp"
  then have ep: "trim (llmEndpoint (settings w)) \<noteq> []"
    and rq: "requestUrl e (llm_request (settings w) ms) = Inr resp" by simp_all
  consider (st) "status resp \<noteq> 200"
    | (shape) "status resp = 200" "\<not> isString (response_content (json resp))"
    | (ok) c where "status resp = 200" "response_content (json resp) = JString c"
    using isString_iff by blast
  then have "new_events w (snd (callLlm e ms w)) = [RequestUrl (llm_request (settings w) ms)] \<and>
      ((\<exists>err. fst (callLlm e ms w) = Inl err \<and> isBackendError err) \<longleftrightarrow>
         (status resp \<noteq> 200 \<or> \<not> isString (response_content (json resp)))) \<and>
      (\<forall>c. status resp = 200 \<and> response_content (json resp) = JString c \<longrightarrow>
         fst (callLlm e ms w) = Inr c)"
  proof cases
    case st
    then show ?thesis
      by (simp add: callLlm_status [OF ep rq] new_events_emit isBackendError_def)
  next
    case shape
    then show ?thesis
      by (auto simp: callLlm_shape [OF ep rq] new_events_emit isBackendError_def isString_def)
  next
    case ok
    then show ?thesis
      by (simp add: callLlm_string [OF ep rq] new_events_emit isString_def)
  qed
  then show "new_events w (snd (callLlm e ms w)) = [RequestUrl (llm_request (settings w) ms)]"
    and "(\<exists>err. fst (callLlm e ms w) = Inl err \<and> isBackendError err) \<longleftrightarrow>
         (status resp \<noteq> 200 \<or> \<not> isString (response_content (json resp)))"
    and "\<forall>c. status resp = 200 \<and> response_content (json resp) = JString c \<longrightarrow>
         fst (callLlm e ms w) = Inr c"
    by blast+
qed

lemma example_response_content:
  "response_content (json example_response) = JString ''Summary text''"
  by code_simp

lemma example_endpoint: "trim (llmEndpoint (settings example_world)) \<noteq> []"
  by code_simp

lemma example_blank:
  "trim (llmEndpoint (settings (example_world\<lparr>settings := example_settings\<lparr>llmEndpoint := ''  ''\<rparr>\<rparr>))) = []"
  by code_simp


subsection \<open>Effects of the storage calls\<close>

lemma new_events_refl: "new_events w w = []"
  by (simp add: new_events_def)

lemma only_creates_folders_refl: "only_creates_folders w w"
  by (simp add: only_creates_folders_def new_events_def)

lemma only_creates_folders_trans:
  assumes "only_creates_folders w w1" "only_creates_folders w1 w2"
  shows "only_creates_folders w w2"
proof -
  from assms obtain a where a: "trace w1 = trace w @ a" "list_all isCreateFolder a"
    unfolding only_creates_folders_def new_events_def
    by (metis append_take_drop_id)
  from assms obtain b where b: "trace w2 = trace w1 @ b" "list_all isCreateFolder b"
    unfolding only_creates_folders_def new_events_def
    by (metis append_take_drop_id)
  from assms have "files w2 = files w" "settings w2 = settings w" "savedData w2 = savedData w"
    "set (folders w) \<subseteq> set (folders w2)"
    unfolding only_creates_folders_def by auto
  with a b show ?thesis
    by (simp add: only_creates_folders_def new_events_def)
qed

lemma createFolder_only:
  "createFolder p w = (r, w') \<Longrightarrow> only_creates_folders w w'"
  by (auto simp: createFolder_def Let_def emit_def only_creates_folders_def new_events_def
      isCreateFolder_def split: if_splits)

lemma ensureFolderExists_loop_only:
  "ensureFolderExists_loop current parts w = (r, w') \<Longrightarrow> only_creates_folders w w'"
proof (induction current parts w arbitrary: r w' rule: ensureFolderExists_loop.induct)
  case (1 current w)
  then show ?case by (simp add: only_creates_folders_refl)
next
  case (2 current part parts w)
  define c where "c = (if current \<noteq> [] then current @ ''/'' @ part else part)"
  show ?case
  proof (cases "adapter_exists w c")
    case True
    with 2 show ?thesis by (simp add: c_def)
  next
    case False
    obtain r1 w1 where cf: "createFolder c w = (r1, w1)" by (cases "createFolder c w")
    note o1 = createFolder_only [OF cf]
    show ?thesis
    proof (cases r1)
      case None
      with 2(1) [of c None w1 r w'] 2(3) False cf have "only_creates_folders w1 w'"
        by (simp add: c_def)
      with o1 show ?thesis by (rule only_creates_folders_trans)
    next
      case (Some err)
      with 2(3) False cf have "w' = w1" by (simp add: c_def)
      with o1 show ?thesis by simp
    qed
  qed
qed

lemma ensureFolderExists_only:
  "ensureFolderExists p w = (r, w') \<Longrightarrow> only_creates_folders w w'"
  by (auto simp: ensureFolderExists_def Let_def only_creates_folders_refl
      split: if_splits intro: ensureFolderExists_loop_only)

lemma only_creates_folders_events:
  assumes "only_creates_folders w w'"
  shows "trace w' = trace w @ new_events w w'" "list_all isCreateFolder (new_events w w')"
  using assms unfolding only_creates_folders_def new_events_def
  by (metis append_take_drop_id, simp)

lemma new_events_append:
  "trace w' = trace w @ evs \<Longrightarrow> new_events w w' = evs"
  by (simp add: new_events_def)

lemma callLlm_world:
  "callLlm e ms w = (r, w1) \<Longrightarrow>
     files w1 = files w \<and> folders w1 = folders w \<and> settings w1 = settings w \<and>
     savedData w1 = savedData w \<and>
     (trace w1 = trace w \<or> trace w1 = trace w @ [RequestUrl (llm_request (settings w) ms)])"
  by (auto simp: callLlm_def Let_def emit_def split: if_splits sum.splits jsvalue.splits)


subsection \<open>Trimming\<close>

lemma last_dropWhile: "dropWhile P xs \<noteq> [] \<Longrightarrow> last (dropWhile P xs) = last xs"
  by (induction xs) (auto split: if_splits)

lemma trim_fix:
  assumes "s \<noteq> []" "\<not> isWhiteSpace (hd s)" "\<not> isWhiteSpace (last s)"
  shows "trim s = s"
proof -
  from assms(1,2) have "dropWhile isWhiteSpace s = s" by (cases s) auto
  moreover from assms(1,3) have "dropWhile isWhiteSpace (rev s) = rev s"
    by (cases "rev s") (auto simp: hd_rev)
  ultimately show ?thesis by (simp add: trim_def trimStart_def trimEnd_def)
qed

lemma trim_ends:
  assumes "trim s \<noteq> []"
  shows "\<not> isWhiteSpace (hd (trim s))" "\<not> isWhiteSpace (last (trim s))"
proof -
  define t where "t = dropWhile isWhiteSpace s"
  define u where "u = dropWhile isWhiteSpace (rev t)"
  have ts: "trim s = rev u" by (simp add: trim_def trimStart_def trimEnd_def t_def u_def)
  with assms have une: "u \<noteq> []" by simp
  then have tne: "t \<noteq> []" by (auto simp: u_def)
  have "\<not> isWhiteSpace (hd t)" using tne unfolding t_def by (rule hd_dropWhile)
  moreover have "last u = last (rev t)" using une unfolding u_def by (rule last_dropWhile)
  ultimately show "\<not> isWhiteSpace (hd (trim s))"
    using une tne by (simp add: ts hd_rev last_rev)
  have "\<not> isWhiteSpace (hd u)" using une unfolding u_def by (rule hd_dropWhile)
  then show "\<not> isWhiteSpace (last (trim s))"
    using une by (simp add: ts last_rev)
qed

lemma backlink_last: "last (a @ backlink d) = CHR '')''"
  by (simp add: backlink_def)

lemma not_space_paren: "\<not> isWhiteSpace CHR '')''" "\<not> isWhiteSpace CHR ''-''"
  by (simp_all add: isWhiteSpace_def)

lemma trim_with_backlink:
  assumes "trim summary \<noteq> []"
  shows "trim (trim summary @ backlink d) = trim summary @ backlink d"
proof (rule trim_fix)
  show "trim summary @ backlink d \<noteq> []" using assms by simp
  show "\<not> isWhiteSpace (hd (trim summary @ backlink d))"
    using assms trim_ends(1) [OF assms] by (simp add: hd_append)
  show "\<not> isWhiteSpace (last (trim summary @ backlink d))"
    by (simp add: backlink_last not_space_paren del: last_append)
qed

lemma trim_backlink_alone:
  "trim (backlink d) = ''---\<newline>\<newline>[Original note]('' @ d @ '')''"
proof -
  have "backlink d = ''\<newline>\<newline>'' @ (''---\<newline>\<newline>[Original note]('' @ d @ '')'')"
    by (simp add: backlink_def)
  then have "trimStart (backlink d) = ''---\<newline>\<newline>[Original note]('' @ d @ '')''"
    by (simp add: trimStart_def isWhiteSpace_def)
  moreover have "trim (''---\<newline>\<newline>[Original note]('' @ d @ '')'') = ''---\<newline>\<newline>[Original note]('' @ d @ '')''"
    by (rule trim_fix) (simp_all add: isWhiteSpace_def)
  moreover have "trim (backlink d) = trim (trimStart (backlink d))"
    by (simp add: trim_def trimStart_def)
  ultimately show ?thesis by simp
qed


subsection \<open>Day processor\<close>

lemma emit_fields:
  "files (emit ev w) = files w" "folders (emit ev w) = folders w" "settings (emit ev w) = settings w"
  "savedData (emit ev w) = savedData w" "trace (emit ev w) = trace w @ [ev]"
  by (simp_all add: emit_def)

lemma adapter_write_trace: "trace (adapter_write p c w) = trace w @ [Write p c]"
  by (simp add: adapter_write_def Let_def emit_def)

lemma saveSettings_trace: "trace (saveSettings w) = trace w @ [SaveData (settings w)]"
  by (simp add: saveSettings_def emit_def)

text \<open>The run of the \<open>try\<close> block up to the call of the model.\<close>

lemma processDate_try_absent:
  assumes "\<not> adapter_exists w (getDailyNotePath (settings w) (clock e) d)"
  shows "processDate_try e d force out w =
           (None, if force then emit (Notice (''Daily note not found: '' @ getDailyNotePath (settings w) (clock e) d)) w else w)"
  using assms by (simp add: processDate_try_def Let_def)

lemma processDate_try_unreadable:
  assumes "adapter_exists w (getDailyNotePath (settings w) (clock e) d)"
    "adapter_read w (getDailyNotePath (settings w) (clock e) d) = Inl err"
  shows "processDate_try e d force out w = (Some err, w)"
  using assms by (simp add: processDate_try_def Let_def)

lemma processDate_try_short:
  assumes "adapter_exists w (getDailyNotePath (settings w) (clock e) d)"
    "adapter_read w (getDailyNotePath (settings w) (clock e) d) = Inr raw"
    "length (trim raw) < 20"
  shows "processDate_try e d force out w =
           (None, if force then emit (Notice (''Daily note is empty or nearly empty: ''
                                        @ getDailyNotePath (settings w) (clock e) d)) w else w)"
  using assms by (auto simp: processDate_try_def Let_def)

lemma processDate_try_failed:
  assumes "adapter_exists w (getDailyNotePath (settings w) (clock e) d)"
    "adapter_read w (getDailyNotePath (settings w) (clock e) d) = Inr raw"
    "20 \<le> length (trim raw)"
    "callLlm e (buildMessages (settings w) d (trim raw)) w = (Inl err, w1)"
  shows "processDate_try e d force out w = (Some err, w1)"
  using assms by (auto simp: processDate_try_def Let_def)

lemma processDate_try_empty:
  assumes "adapter_exists w (getDailyNotePath (settings w) (clock e) d)"
    "adapter_read w (getDailyNotePath (settings w) (clock e) d) = Inr raw"
    "20 \<le> length (trim raw)"
    "callLlm e (buildMessages (settings w) d (trim raw)) w = (Inr [], w1)"
  shows "processDate_try e d force out w = (None, emit (Notice ''LLM returned an empty summary'') w1)"
  using assms by (auto simp: processDate_try_def Let_def)

lemma processDate_try_persist:
  assumes "adapter_exists w (getDailyNotePath (settings w) (clock e) d)"
    "adapter_read w (getDailyNotePath (settings w) (clock e) d) = Inr raw"
    "20 \<le> length (trim raw)"
    "callLlm e (buildMessages (settings w) d (trim raw)) w = (Inr summary, w1)"
    "summary \<noteq> []"
  shows "processDate_try e d force out w =
     (case ensureFolderExists (outputFolder (settings w1)) w1 of
        (Some err, w2) \<Rightarrow> (Some err, w2)
      | (None, w2) \<Rightarrow>
          (case ensureFolderExists (join CHR ''/'' (butlast (split CHR ''/'' out))) w2 of
             (Some err, w3) \<Rightarrow> (Some err, w3)
           | (None, w3) \<Rightarrow>
               (None, emit (Notice (''Daily summary saved: '' @ out))
                  (saveSettings
                    ((adapter_write out (trim (trim summary @ backlink d) @ ''\<newline>'') w3)
                      \<lparr>settings := (settings (adapter_write out (trim (trim summary @ backlink d) @ ''\<newline>'') w3))
                         \<lparr>lastProcessedDate := d\<rparr>\<rparr>)))))"
  using assms by (auto simp: processDate_try_def Let_def split: prod.splits option.splits)

text \<open>
  Claim C1. With \<open>force = false\<close> and a summary already at the summary path, the invocation
  returns at once and the world is the one it started from: no request, no write, no change
  of the settings, no notice.
\<close>

theorem processDateIfNeeded_gate:
  assumes "adapter_exists w (getSummaryPath (settings w) (clock e) dateStamp)"
  shows "processDateIfNeeded e dateStamp False w = (None, w)"
  using assms by (simp add: processDateIfNeeded_def)


lemma example_summary_path:
  "getSummaryPath example_settings example_clock ''2026-02-20'' = ''Daily Summaries/2026-02-20_summary.md''"
  by (simp add: getSummaryPath_def example_settings_def normalizePath_def backslashes_to_slashes_def)

lemma example_world_fields:
  "settings example_world = example_settings" "settings example_world_done = example_settings"
  "clock example_env = example_clock" "clock example_env_down = example_clock"
  "clock example_env_blank = example_clock"
  "files example_world = [(''Daily/2026-02-20.md'', ''# Friday: wrote the plan.'')]"
  "folders example_world = [''Daily'']" "trace example_world = []"
  by (simp_all add: example_world_def example_world_done_def example_env_def example_env_down_def
      example_env_blank_def)

text \<open>Claim C1 on the example, the summary being there already.\<close>

theorem processDateIfNeeded_gate_witness:
  "adapter_exists example_world_done
     (getSummaryPath (settings example_world_done) (clock example_env) ''2026-02-20'') \<and>
   processDateIfNeeded example_env ''2026-02-20'' False example_world_done = (None, example_world_done)"
proof -
  have "adapter_exists example_world_done
     (getSummaryPath (settings example_world_done) (clock example_env) ''2026-02-20'')"
    by (simp add: example_world_fields example_summary_path)
      (simp add: adapter_exists_def example_world_done_def example_world_def)
  with processDateIfNeeded_gate [of example_world_done example_env "''2026-02-20''"]
  show ?thesis by simp
qed

lemma processDateIfNeeded_caught:
  assumes "force \<or> \<not> adapter_exists w (getSummaryPath (settings w) (clock e) d)"
    "processDate_try e d force (getSummaryPath (settings w) (clock e) d) w = (Some err, w1)"
  shows "processDateIfNeeded e d force w =
           (None, emit (Notice (''Daily summary failed: '' @ error_message err))
                    (emit (ConsoleError ''Failed to generate daily summary'' err) w1))"
  using assms by (auto simp: processDateIfNeeded_def Let_def)

lemma processDateIfNeeded_passed:
  assumes "force \<or> \<not> adapter_exists w (getSummaryPath (settings w) (clock e) d)"
    "processDate_try e d force (getSummaryPath (settings w) (clock e) d) w = (None, w1)"
  shows "processDateIfNeeded e d force w = (None, w1)"
  using assms by (auto simp: processDateIfNeeded_def Let_def)

text \<open>
  Claim C3. When the invocation gets as far as the call of the model and that call throws
  (blank endpoint, bad status, bad response shape, or a failure of the transport), nothing is
  thrown out of the invocation; files, folders, settings and saved settings are what they
  were; the new effects hold exactly one notice, the failure notice with the message of the
  error; and none of them is a write.
\<close>

theorem processDateIfNeeded_failure:
  assumes "force \<or> \<not> adapter_exists w (getSummaryPath (settings w) (clock e) d)"
    and "adapter_exists w (getDailyNotePath (settings w) (clock e) d)"
    and "adapter_read w (getDailyNotePath (settings w) (clock e) d) = Inr raw"
    and "20 \<le> length (trim raw)"
    and "fst (callLlm e (buildMessages (settings w) d (trim raw)) w) = Inl err"
  shows "\<exists>w'. processDateIfNeeded e d force w = (None, w') \<and>
           files w' = files w \<and> folders w' = folders w \<and>
           settings w' = settings w \<and> savedData w' = savedData w \<and>
           filter isNotice (new_events w w') = [Notice (''Daily summary failed: '' @ error_message err)] \<and>
           filter isWrite (new_events w w') = []"
proof -
  obtain w1 where c: "callLlm e (buildMessages (settings w) d (trim raw)) w = (Inl err, w1)"
    using assms(5) by (cases "callLlm e (buildMessages (settings w) d (trim raw)) w") auto
  note t = processDate_try_failed [OF assms(2,3,4) c]
  note r = processDateIfNeeded_caught [OF assms(1) t]
  note cw = callLlm_world [OF c]
  define w' where "w' = emit (Notice (''Daily summary failed: '' @ error_message err))
                    (emit (ConsoleError ''Failed to generate daily summary'' err) w1)"
  from cw have "filter isNotice (new_events w w') = [Notice (''Daily summary failed: '' @ error_message err)]"
    and "filter isWrite (new_events w w') = []"
    by (auto simp: w'_def emit_fields new_events_def isNotice_def isWrite_def)
  moreover from cw have "files w' = files w" "folders w' = folders w" "settings w' = settings w"
    "savedData w' = savedData w"
    by (simp_all add: w'_def emit_fields)
  ultimately show ?thesis using r unfolding w'_def by blast
qed

lemma example_note:
  "adapter_exists example_world (getDailyNotePath (settings example_world) (clock example_env_down) ''2026-02-20'')"
  "adapter_read example_world (getDailyNotePath (settings example_world) (clock example_env_down) ''2026-02-20'')
     = Inr ''# Friday: wrote the plan.''"
  "\<not> adapter_exists example_world (getSummaryPath (settings example_world) (clock example_env_down) ''2026-02-20'')"
  by (simp_all add: example_world_fields example_paths example_summary_path
      adapter_exists_def adapter_read_def)

lemma example_note_length: "20 \<le> length (trim ''# Friday: wrote the plan.'')"
  by code_simp

lemma example_call_down:
  "fst (callLlm example_env_down (buildMessages (settings example_world) ''2026-02-20''
          (trim ''# Friday: wrote the plan.'')) example_world)
     = Inl (NonError ''net::ERR_CONNECTION_REFUSED'')"
proof -
  have "requestUrl example_env_down (llm_request (settings example_world)
          (buildMessages (settings example_world) ''2026-02-20'' (trim ''# Friday: wrote the plan.'')))
        = Inl (NonError ''net::ERR_CONNECTION_REFUSED'')"
    by (simp add: example_env_down_def)
  from callLlm_error [OF example_endpoint this] show ?thesis by simp
qed

text \<open>Claim C3 on the example, the network being down.\<close>

theorem processDateIfNeeded_failure_witness:
  "\<exists>w'. processDateIfNeeded example_env_down ''2026-02-20'' False example_world = (None, w') \<and>
         files w' = files example_world \<and> settings w' = settings example_world \<and>
         filter isNotice (new_events example_world w')
           = [Notice ''Daily summary failed: net::ERR_CONNECTION_REFUSED''] \<and>
         filter isWrite (new_events example_world w') = []"
  using processDateIfNeeded_failure [of False example_world example_env_down "''2026-02-20''"
      "''# Friday: wrote the plan.''" "NonError ''net::ERR_CONNECTION_REFUSED''"]
    example_note example_note_length example_call_down
  by (simp add: error_message_def) blast


subsection \<open>What the day processor writes\<close>

lemma no_write_in_creates:
  "list_all isCreateFolder evs \<Longrightarrow> Write p c \<notin> set evs"
  by (auto simp: list_all_iff isCreateFolder_def)

lemma processDate_try_persist_fail1:
  assumes "adapter_exists w (getDailyNotePath (settings w) (clock e) d)"
    "adapter_read w (getDailyNotePath (settings w) (clock e) d) = Inr raw"
    "20 \<le> length (trim raw)"
    "callLlm e (buildMessages (settings w) d (trim raw)) w = (Inr summary, w1)"
    "summary \<noteq> []"
    "ensureFolderExists (outputFolder (settings w1)) w1 = (Some err, w2)"
  shows "processDate_try e d force out w = (Some err, w2)"
  by (simp add: processDate_try_persist [OF assms(1-5)] assms(6))

lemma processDate_try_persist_fail2:
  assumes "adapter_exists w (getDailyNotePath (settings w) (clock e) d)"
    "adapter_read w (getDailyNotePath (settings w) (clock e) d) = Inr raw"
    "20 \<le> length (trim raw)"
    "callLlm e (buildMessages (settings w) d (trim raw)) w = (Inr summary, w1)"
    "summary \<noteq> []"
    "ensureFolderExists (outputFolder (settings w1)) w1 = (None, w2)"
    "ensureFolderExists (join CHR ''/'' (butlast (split CHR ''/'' out))) w2 = (Some err, w3)"
  shows "processDate_try e d force out w = (Some err, w3)"
  by (simp add: processDate_try_persist [OF assms(1-5)] assms(6,7))

lemma processDate_try_persist_done:
  assumes "adapter_exists w (getDailyNotePath (settings w) (clock e) d)"
    "adapter_read w (getDailyNotePath (settings w) (clock e) d) = Inr raw"
    "20 \<le> length (trim raw)"
    "callLlm e (buildMessages (settings w) d (trim raw)) w = (Inr summary, w1)"
    "summary \<noteq> []"
    "ensureFolderExists (outputFolder (settings w1)) w1 = (None, w2)"
    "ensureFolderExists (join CHR ''/'' (butlast (split CHR ''/'' out))) w2 = (None, w3)"
  shows "processDate_try e d force out w =
           (None, emit (Notice (''Daily summary saved: '' @ out))
                  (saveSettings
                    ((adapter_write out (trim (trim summary @ backlink d) @ ''\<newline>'') w3)
                      \<lparr>settings := (settings (adapter_write out (trim (trim summary @ backlink d) @ ''\<newline>'') w3))
                         \<lparr>lastProcessedDate := d\<rparr>\<rparr>)))"
  by (simp add: processDate_try_persist [OF assms(1-5)] assms(6,7))

lemma persisted_trace:
  "trace (emit (Notice n)
           (saveSettings ((adapter_write out written w3)\<lparr>settings := s'\<rparr>)))
     = trace w3 @ [Write out written, SaveData s', Notice n]"
  by (simp add: emit_fields saveSettings_trace adapter_write_trace)

lemma processDate_try_write:
  assumes run: "processDate_try e d force out w = (r, w')"
    and wr: "Write p c \<in> set (new_events w w')"
  shows "\<exists>raw summary.
           adapter_read w (getDailyNotePath (settings w) (clock e) d) = Inr raw \<and>
           fst (callLlm e (buildMessages (settings w) d (trim raw)) w) = Inr summary \<and>
           p = out \<and> c = trim (trim summary @ backlink d) @ ''\<newline>''"
proof -
  define np where "np = getDailyNotePath (settings w) (clock e) d"
  show ?thesis
  proof (cases "adapter_exists w np")
    case False
    with run wr show ?thesis
      using processDate_try_absent [of w e d force out]
      by (auto simp: np_def new_events_def emit_fields split: if_splits)
  next
    case ex: True
    show ?thesis
    proof (cases "adapter_read w np")
      case (Inl err)
      with run wr ex show ?thesis
        using processDate_try_unreadable [of w e d err force out]
        by (auto simp: np_def new_events_def)
    next
      case rd: (Inr raw)
      show ?thesis
      proof (cases "length (trim raw) < 20")
        case True
        with run wr ex rd show ?thesis
          using processDate_try_short [of w e d raw force out]
          by (auto simp: np_def new_events_def emit_fields split: if_splits)
      next
        case False
        then have len: "20 \<le> length (trim raw)" by simp
        obtain res w1 where c: "callLlm e (buildMessages (settings w) d (trim raw)) w = (res, w1)"
          by (cases "callLlm e (buildMessages (settings w) d (trim raw)) w")
        note cw = callLlm_world [OF c]
        from cw obtain rq where rq: "trace w1 = trace w @ rq" "Write p c \<notin> set rq"
          by auto
        show ?thesis
        proof (cases res)
          case (Inl err)
          with c have "processDate_try e d force out w = (Some err, w1)"
            using processDate_try_failed [of w e d raw err w1 force out] ex rd len
            by (simp add: np_def)
          with run wr rq show ?thesis by (simp add: new_events_def)
        next
          case (Inr summary)
          show ?thesis
          proof (cases "summary = []")
            case True
            with c Inr have "processDate_try e d force out w
                = (None, emit (Notice ''LLM returned an empty summary'') w1)"
              using processDate_try_empty [of w e d raw w1 force out] ex rd len
              by (simp add: np_def)
            with run wr rq show ?thesis by (auto simp: new_events_def emit_fields)
          next
            case ne: False
            from c Inr have cc: "callLlm e (buildMessages (settings w) d (trim raw)) w = (Inr summary, w1)"
              by simp
            from ex rd have ex': "adapter_exists w (getDailyNotePath (settings w) (clock e) d)"
              and rd': "adapter_read w (getDailyNotePath (settings w) (clock e) d) = Inr raw"
              by (simp_all add: np_def)
            note pa = ex' rd' len cc ne
            obtain r2 w2 where e1: "ensureFolderExists (outputFolder (settings w1)) w1 = (r2, w2)"
              by (cases "ensureFolderExists (outputFolder (settings w1)) w1")
            note o1 = only_creates_folders_events [OF ensureFolderExists_only [OF e1]]
            obtain r3 w3 where e2:
              "ensureFolderExists (join CHR ''/'' (butlast (split CHR ''/'' out))) w2 = (r3, w3)"
              by (cases "ensureFolderExists (join CHR ''/'' (butlast (split CHR ''/'' out))) w2")
            note o2 = only_creates_folders_events [OF ensureFolderExists_only [OF e2]]
            have t3: "trace w3 = trace w @ rq @ new_events w1 w2 @ new_events w2 w3"
              using rq(1) o1(1) o2(1) by simp
            have nw: "Write p c \<notin> set (rq @ new_events w1 w2 @ new_events w2 w3)"
              using rq(2) no_write_in_creates [OF o1(2)] no_write_in_creates [OF o2(2)] by simp
            have t2: "trace w2 = trace w @ rq @ new_events w1 w2"
              using rq(1) o1(1) by simp
            note n2e = new_events_append [OF t2]
            note n3e = new_events_append [OF t3]
            have nw2: "Write p c \<notin> set (rq @ new_events w1 w2)"
              using nw by simp
            show ?thesis
            proof (cases r2)
              case (Some err)
              with e1 have "processDate_try e d force out w = (Some err, w2)"
                using processDate_try_persist_fail1 [OF pa] by simp
              with run have "w' = w2" by simp
              with wr n2e nw2 show ?thesis by simp
            next
              case n2: None
              show ?thesis
              proof (cases r3)
                case (Some err)
                with e1 e2 n2 have "processDate_try e d force out w = (Some err, w3)"
                  using processDate_try_persist_fail2 [OF pa] by simp
                with run have "w' = w3" by simp
                with wr n3e nw show ?thesis by simp
              next
                case n3: None
                define written where "written = trim (trim summary @ backlink d) @ ''\<newline>''"
                from e1 e2 n2 n3 have "processDate_try e d force out w =
                    (None, emit (Notice (''Daily summary saved: '' @ out))
                      (saveSettings
                        ((adapter_write out written w3)
                          \<lparr>settings := (settings (adapter_write out written w3))\<lparr>lastProcessedDate := d\<rparr>\<rparr>)))"
                  unfolding written_def using processDate_try_persist_done [OF pa] by simp
                with run have "w' = emit (Notice (''Daily summary saved: '' @ out))
                      (saveSettings
                        ((adapter_write out written w3)
                          \<lparr>settings := (settings (adapter_write out written w3))\<lparr>lastProcessedDate := d\<rparr>\<rparr>))"
                  by simp
                then have "trace w' = trace w3 @ [Write out written] @
                        [SaveData ((settings (adapter_write out written w3))\<lparr>lastProcessedDate := d\<rparr>),
                         Notice (''Daily summary saved: '' @ out)]"
                  by (simp only: persisted_trace) simp
                then have "trace w' = trace w @ ((rq @ new_events w1 w2 @ new_events w2 w3) @ [Write out written] @
                        [SaveData ((settings (adapter_write out written w3))\<lparr>lastProcessedDate := d\<rparr>),
                         Notice (''Daily summary saved: '' @ out)])"
                  by (simp only: t3 append_assoc)
                then have "new_events w w' = (rq @ new_events w1 w2 @ new_events w2 w3) @ [Write out written] @
                        [SaveData ((settings (adapter_write out written w3))\<lparr>lastProcessedDate := d\<rparr>),
                         Notice (''Daily summary saved: '' @ out)]"
                  by (rule new_events_append)
                with wr nw have "p = out \<and> c = written" by auto
                with rd c Inr show ?thesis by (simp add: np_def written_def)
              qed
            qed
          qed
        qed
      qed
    qed
  qed
qed


lemma processDate_try_extends:
  assumes run: "processDate_try e d force out w = (r, w')"
  shows "\<exists>evs. trace w' = trace w @ evs"
proof -
  define np where "np = getDailyNotePath (settings w) (clock e) d"
  show ?thesis
  proof (cases "adapter_exists w np")
    case False
    with run show ?thesis
      using processDate_try_absent [of w e d force out]
      by (auto simp: np_def emit_fields split: if_splits)
  next
    case ex: True
    show ?thesis
    proof (cases "adapter_read w np")
      case (Inl err)
      with run ex show ?thesis
        using processDate_try_unreadable [of w e d err force out] by (auto simp: np_def)
    next
      case rd: (Inr raw)
      show ?thesis
      proof (cases "length (trim raw) < 20")
        case True
        with run ex rd show ?thesis
          using processDate_try_short [of w e d raw force out]
          by (auto simp: np_def emit_fields split: if_splits)
      next
        case False
        then have len: "20 \<le> length (trim raw)" by simp
        obtain res w1 where c: "callLlm e (buildMessages (settings w) d (trim raw)) w = (res, w1)"
          by (cases "callLlm e (buildMessages (settings w) d (trim raw)) w")
        from callLlm_world [OF c] obtain rq where rq: "trace w1 = trace w @ rq" by auto
        from ex rd have ex': "adapter_exists w (getDailyNotePath (settings w) (clock e) d)"
          and rd': "adapter_read w (getDailyNotePath (settings w) (clock e) d) = Inr raw"
          by (simp_all add: np_def)
        show ?thesis
        proof (cases res)
          case (Inl err)
          with c have "processDate_try e d force out w = (Some err, w1)"
            using processDate_try_failed [OF ex' rd' len] by simp
          with run rq show ?thesis by simp
        next
          case (Inr summary)
          with c have cc: "callLlm e (buildMessages (settings w) d (trim raw)) w = (Inr summary, w1)"
            by simp
          show ?thesis
          proof (cases "summary = []")
            case True
            with cc have "processDate_try e d force out w
                = (None, emit (Notice ''LLM returned an empty summary'') w1)"
              using processDate_try_empty [OF ex' rd' len] by simp
            with run rq show ?thesis by (auto simp: emit_fields)
          next
            case ne: False
            note pa = ex' rd' len cc ne
            obtain r2 w2 where e1: "ensureFolderExists (outputFolder (settings w1)) w1 = (r2, w2)"
              by (cases "ensureFolderExists (outputFolder (settings w1)) w1")
            note o1 = only_creates_folders_events [OF ensureFolderExists_only [OF e1]]
            obtain r3 w3 where e2:
              "ensureFolderExists (join CHR ''/'' (butlast (split CHR ''/'' out))) w2 = (r3, w3)"
              by (cases "ensureFolderExists (join CHR ''/'' (butlast (split CHR ''/'' out))) w2")
            note o2 = only_creates_folders_events [OF ensureFolderExists_only [OF e2]]
            have t2: "trace w2 = trace w @ rq @ new_events w1 w2"
              using rq o1(1) by simp
            have t3: "trace w3 = trace w @ rq @ new_events w1 w2 @ new_events w2 w3"
              using rq o1(1) o2(1) by simp
            show ?thesis
            proof (cases r2)
              case (Some err)
              with e1 have "processDate_try e d force out w = (Some err, w2)"
                using processDate_try_persist_fail1 [OF pa] by simp
              with run have "w' = w2" by simp
              with t2 show ?thesis by blast
            next
              case n2: None
              show ?thesis
              proof (cases r3)
                case (Some err)
                with e1 e2 n2 have "processDate_try e d force out w = (Some err, w3)"
                  using processDate_try_persist_fail2 [OF pa] by simp
                with run have "w' = w3" by simp
                with t3 show ?thesis by blast
              next
                case n3: None
                define written where "written = trim (trim summary @ backlink d) @ ''\<newline>''"
                from e1 e2 n2 n3 have "processDate_try e d force out w =
                    (None, emit (Notice (''Daily summary saved: '' @ out))
                      (saveSettings
                        ((adapter_write out written w3)
                          \<lparr>settings := (settings (adapter_write out written w3))\<lparr>lastProcessedDate := d\<rparr>\<rparr>)))"
                  unfolding written_def using processDate_try_persist_done [OF pa] by simp
                with run have "w' = emit (Notice (''Daily summary saved: '' @ out))
                      (saveSettings
                        ((adapter_write out written w3)
                          \<lparr>settings := (settings (adapter_write out written w3))\<lparr>lastProcessedDate := d\<rparr>\<rparr>))"
                  by simp
                then have "trace w' = trace w3 @ [Write out written,
                         SaveData ((settings (adapter_write out written w3))\<lparr>lastProcessedDate := d\<rparr>),
                         Notice (''Daily summary saved: '' @ out)]"
                  by (simp only: persisted_trace)
                then have "trace w' = trace w @ ((rq @ new_events w1 w2 @ new_events w2 w3) @ [Write out written,
                         SaveData ((settings (adapter_write out written w3))\<lparr>lastProcessedDate := d\<rparr>),
                         Notice (''Daily summary saved: '' @ out)])"
                  by (simp only: t3 append_assoc)
                then show ?thesis by blast
              qed
            qed
          qed
        qed
      qed
    qed
  qed
qed

lemma new_events_emit2:
  assumes "trace w1 = trace w @ evs"
  shows "new_events w (emit b (emit a w1)) = new_events w w1 @ [a, b]"
proof -
  have "trace (emit b (emit a w1)) = trace w @ (evs @ [a, b])"
    using assms by (simp add: emit_fields)
  then have "new_events w (emit b (emit a w1)) = evs @ [a, b]" by (rule new_events_append)
  moreover have "new_events w w1 = evs" using assms by (rule new_events_append)
  ultimately show ?thesis by simp
qed

lemma ensure_summaries_folder:
  assumes "files w = files example_world" "folders w = folders example_world"
  shows "ensureFolderExists ''Daily Summaries'' w
           = (None, (emit (CreateFolder ''Daily Summaries'') w)\<lparr>folders := folders w @ [''Daily Summaries'']\<rparr>)"
  using assms
  by (simp add: ensureFolderExists_def normalizePath_def backslashes_to_slashes_def
      adapter_exists_def example_world_fields createFolder_def dirname_def emit_fields Let_def)

lemma example_out_dir:
  "join CHR ''/'' (butlast (split CHR ''/'' ''Daily Summaries/2026-02-20_summary.md'')) = ''Daily Summaries''"
  by code_simp

lemma ensure_existing_folder:
  assumes "''Daily Summaries'' \<in> set (folders w)"
  shows "ensureFolderExists ''Daily Summaries'' w = (None, w)"
  using assms
  by (simp add: ensureFolderExists_def normalizePath_def backslashes_to_slashes_def
      adapter_exists_def Let_def)

text \<open>The example run of the specification, for any answer of the model that is not empty.\<close>

lemma example_run_writes:
  assumes ck: "clock e = example_clock"
    and rq: "\<And>r. requestUrl e r = Inr resp"
    and st: "status resp = 200"
    and js: "response_content (json resp) = JString summary"
    and ne: "summary \<noteq> []"
  shows "Write ''Daily Summaries/2026-02-20_summary.md'' (trim (trim summary @ backlink ''2026-02-20'') @ ''\<newline>'')
           \<in> set (new_events example_world (snd (processDateIfNeeded e ''2026-02-20'' False example_world)))"
proof -
  define out where "out = ''Daily Summaries/2026-02-20_summary.md''"
  define raw where "raw = ''# Friday: wrote the plan.''"
  define ms where "ms = buildMessages (settings example_world) ''2026-02-20'' (trim raw)"
  define w1 where "w1 = emit (RequestUrl (llm_request (settings example_world) ms)) example_world"
  define w2 where "w2 = (emit (CreateFolder ''Daily Summaries'') w1)\<lparr>folders := folders w1 @ [''Daily Summaries'']\<rparr>"
  define written where "written = trim (trim summary @ backlink ''2026-02-20'') @ ''\<newline>''"
  have sp: "getSummaryPath (settings example_world) (clock e) ''2026-02-20'' = out"
    by (simp add: ck example_world_fields example_summary_path out_def)
  have np: "getDailyNotePath (settings example_world) (clock e) ''2026-02-20'' = ''Daily/2026-02-20.md''"
    by (simp add: ck example_world_fields example_paths)
  have gate: "False \<or> \<not> adapter_exists example_world (getSummaryPath (settings example_world) (clock e) ''2026-02-20'')"
    unfolding sp out_def by (simp add: adapter_exists_def example_world_fields)
  have ex: "adapter_exists example_world (getDailyNotePath (settings example_world) (clock e) ''2026-02-20'')"
    unfolding np by (simp add: adapter_exists_def example_world_fields)
  have rd: "adapter_read example_world (getDailyNotePath (settings example_world) (clock e) ''2026-02-20'') = Inr raw"
    unfolding np by (simp add: adapter_read_def example_world_fields raw_def)
  have len: "20 \<le> length (trim raw)"
    unfolding raw_def by (rule example_note_length)
  have cc: "callLlm e (buildMessages (settings example_world) ''2026-02-20'' (trim raw)) example_world
              = (Inr summary, w1)"
    unfolding w1_def ms_def by (rule callLlm_string [OF example_endpoint rq st js])
  have e1: "ensureFolderExists (outputFolder (settings w1)) w1 = (None, w2)"
    unfolding w2_def
    using ensure_summaries_folder [of w1]
    by (simp add: w1_def emit_fields example_world_fields example_settings_def)
  have e2: "ensureFolderExists (join CHR ''/'' (butlast (split CHR ''/'' out))) w2 = (None, w2)"
    unfolding out_def example_out_dir
    by (rule ensure_existing_folder) (simp add: w2_def)
  have t: "processDate_try e ''2026-02-20'' False out example_world =
           (None, emit (Notice (''Daily summary saved: '' @ out))
                  (saveSettings
                    ((adapter_write out written w2)
                      \<lparr>settings := (settings (adapter_write out written w2))\<lparr>lastProcessedDate := ''2026-02-20''\<rparr>\<rparr>)))"
    unfolding written_def by (rule processDate_try_persist_done [OF ex rd len cc ne e1 e2])
  have r: "processDateIfNeeded e ''2026-02-20'' False example_world =
           (None, emit (Notice (''Daily summary saved: '' @ out))
                  (saveSettings
                    ((adapter_write out written w2)
                      \<lparr>settings := (settings (adapter_write out written w2))\<lparr>lastProcessedDate := ''2026-02-20''\<rparr>\<rparr>)))"
    by (rule processDateIfNeeded_passed [OF gate]) (simp only: sp t)
  have "Write out written \<in> set (trace (snd (processDateIfNeeded e ''2026-02-20'' False example_world)))"
    by (simp only: r snd_conv persisted_trace) simp
  then show ?thesis
    by (simp add: new_events_def example_world_fields out_def written_def)
qed

text \<open>
  Claim C2, amended. Every write of an invocation is the write of the persist step: its path
  is the summary path and its text is the answer of the model, trimmed, followed by the
  backlink section, the whole trimmed again, then one newline. When the trimmed answer is
  not empty that is the trimmed answer, an empty line, the rule, an empty line, the link to
  the note and one newline; when the answer holds blanks only it is the rule, an empty line, the
  link and one newline.
\<close>

theorem written_summary_content:
  assumes "Write p c \<in> set (new_events w (snd (processDateIfNeeded e d force w)))"
  shows "\<exists>raw summary.
           adapter_read w (getDailyNotePath (settings w) (clock e) d) = Inr raw \<and>
           fst (callLlm e (buildMessages (settings w) d (trim raw)) w) = Inr summary \<and>
           p = getSummaryPath (settings w) (clock e) d \<and>
           c = trim (trim summary @ backlink d) @ ''\<newline>'' \<and>
           (trim summary \<noteq> [] \<longrightarrow>
              c = trim summary @ ''\<newline>\<newline>---\<newline>\<newline>[Original note]('' @ d @ '')'' @ ''\<newline>'') \<and>
           (trim summary = [] \<longrightarrow> c = ''---\<newline>\<newline>[Original note]('' @ d @ '')'' @ ''\<newline>'')"
proof -
  define out where "out = getSummaryPath (settings w) (clock e) d"
  have open_gate: "force \<or> \<not> adapter_exists w out"
  proof (rule ccontr)
    assume "\<not> (force \<or> \<not> adapter_exists w out)"
    then have "processDateIfNeeded e d force w = (None, w)"
      by (simp add: processDateIfNeeded_def out_def)
    with assms show False by (simp add: new_events_refl)
  qed
  obtain r1 w1 where t: "processDate_try e d force out w = (r1, w1)"
    by (cases "processDate_try e d force out w")
  from processDate_try_extends [OF t] obtain evs where evs: "trace w1 = trace w @ evs" by blast
  have "Write p c \<in> set (new_events w w1)"
  proof (cases r1)
    case None
    with t open_gate have "processDateIfNeeded e d force w = (None, w1)"
      using processDateIfNeeded_passed [of force w e d w1] by (simp add: out_def)
    with assms show ?thesis by simp
  next
    case (Some err)
    with t open_gate have "processDateIfNeeded e d force w =
           (None, emit (Notice (''Daily summary failed: '' @ error_message err))
                    (emit (ConsoleError ''Failed to generate daily summary'' err) w1))"
      using processDateIfNeeded_caught [of force w e d err w1] by (simp add: out_def)
    with assms show ?thesis
      by (simp add: new_events_emit2 [OF evs])
  qed
  from processDate_try_write [OF t this] obtain raw summary where
    f: "adapter_read w (getDailyNotePath (settings w) (clock e) d) = Inr raw"
      "fst (callLlm e (buildMessages (settings w) d (trim raw)) w) = Inr summary"
      "p = out" "c = trim (trim summary @ backlink d) @ ''\<newline>''"
    by blast
  have "trim summary \<noteq> [] \<longrightarrow>
          c = trim summary @ ''\<newline>\<newline>---\<newline>\<newline>[Original note]('' @ d @ '')'' @ ''\<newline>''"
    using f(4) by (auto simp: trim_with_backlink) (simp add: backlink_def)
  moreover have "trim summary = [] \<longrightarrow> c = ''---\<newline>\<newline>[Original note]('' @ d @ '')'' @ ''\<newline>''"
    using f(4) by (auto simp: trim_backlink_alone)
  ultimately show ?thesis using f unfolding out_def by blast
qed

lemma example_trims:
  "trim ''Summary text'' = ''Summary text''" "trim ''  '' = []"
  by code_simp+

lemma example_blank_content:
  "response_content (JObject [(''choices'', JArray [JObject [(''message'', JObject [(''content'', JString ''  '')])]])])
     = JString ''  ''"
  by code_simp

lemma example_written:
  "Write ''Daily Summaries/2026-02-20_summary.md'' (trim (trim ''Summary text'' @ backlink ''2026-02-20'') @ ''\<newline>'')
           \<in> set (new_events example_world (snd (processDateIfNeeded example_env ''2026-02-20'' False example_world)))"
  by (rule example_run_writes [where resp = example_response])
    (simp_all add: example_env_def example_response_content, simp add: example_response_def)

text \<open>
  The amended claim C2 on the example of the specification: the text written for
  \<open>2026-02-20\<close> and the answer \<open>Summary text\<close>.
\<close>

theorem written_summary_content_witness:
  "Write ''Daily Summaries/2026-02-20_summary.md''
         ''Summary text\<newline>\<newline>---\<newline>\<newline>[Original note](2026-02-20)\<newline>''
     \<in> set (new_events example_world (snd (processDateIfNeeded example_env ''2026-02-20'' False example_world))) \<and>
   trim ''Summary text'' \<noteq> [] \<and>
   ''Daily Summaries/2026-02-20_summary.md''
     = getSummaryPath (settings example_world) (clock example_env) ''2026-02-20''"
proof -
  note w = example_written
  from written_summary_content [OF w]
  have p: "''Daily Summaries/2026-02-20_summary.md''
     = getSummaryPath (settings example_world) (clock example_env) ''2026-02-20''"
    by blast
  have "trim (trim ''Summary text'' @ backlink ''2026-02-20'') @ ''\<newline>''
          = ''Summary text\<newline>\<newline>---\<newline>\<newline>[Original note](2026-02-20)\<newline>''"
    using trim_with_backlink [of "''Summary text''" "''2026-02-20''"]
    by (simp add: example_trims backlink_def)
  with w p show ?thesis by (simp add: example_trims)
qed

text \<open>
  Counterexample to claim C2 as stated: when the model answers with blanks only, the answer
  is not the empty string, so the run reaches the persist step; what it writes starts with
  the rule, not with the empty line that follows a trimmed answer.
\<close>

theorem blank_summary_counterexample:
  "Write ''Daily Summaries/2026-02-20_summary.md'' ''---\<newline>\<newline>[Original note](2026-02-20)\<newline>''
     \<in> set (new_events example_world (snd (processDateIfNeeded example_env_blank ''2026-02-20'' False example_world))) \<and>
   ''---\<newline>\<newline>[Original note](2026-02-20)\<newline>''
     \<noteq> trim ''  '' @ ''\<newline>\<newline>---\<newline>\<newline>[Original note](2026-02-20)'' @ ''\<newline>''"
proof -
  have "Write ''Daily Summaries/2026-02-20_summary.md'' (trim (trim ''  '' @ backlink ''2026-02-20'') @ ''\<newline>'')
           \<in> set (new_events example_world (snd (processDateIfNeeded example_env_blank ''2026-02-20'' False example_world)))"
    by (rule example_run_writes [where resp = "\<lparr>status = 200,
        json = JObject [(''choices'', JArray [JObject [(''message'', JObject [(''content'', JString ''  '')])]])]\<rparr>"])
      (simp_all add: example_env_blank_def example_blank_content)
  moreover have "trim (trim ''  '' @ backlink ''2026-02-20'') @ ''\<newline>''
      = ''---\<newline>\<newline>[Original note](2026-02-20)\<newline>''"
    by (simp add: example_trims trim_backlink_alone)
  ultimately show ?thesis by (simp add: example_trims)
qed


subsection \<open>The stamp of a calendar day\<close>

lemma digit_char_code: "d < 10 \<Longrightarrow> of_char (digit_char d) = 48 + d"
  by (simp add: digit_char_def)


lemma digit_char_isDigit: "d < 10 \<Longrightarrow> isDigit (digit_char d)"
  using digit_char_code [of d] by (simp add: isDigit_def)

lemma show_nat_small: "n < 10 \<Longrightarrow> show_nat n = [digit_char n]"
  by (subst show_nat.simps) simp

lemma show_nat_large: "\<not> n < 10 \<Longrightarrow> show_nat n = show_nat (n div 10) @ [digit_char (n mod 10)]"
  by (subst show_nat.simps) simp

lemma show_nat_digits: "show_nat n \<noteq> [] \<and> list_all isDigit (show_nat n)"
proof (induction n rule: show_nat.induct)
  case (1 n)
  show ?case
  proof (cases "n < 10")
    case True
    then show ?thesis by (simp add: show_nat_small digit_char_isDigit)
  next
    case False
    with 1 show ?thesis by (simp add: show_nat_large digit_char_isDigit)
  qed
qed





















subsection \<open>The shape of the response\<close>

lemma show_nat_not_name:
  assumes "k \<noteq> []" "\<not> isDigit (hd k)"
  shows "show_nat i \<noteq> k"
proof
  assume "show_nat i = k"
  with show_nat_digits [of i] have "list_all isDigit k" by simp
  with assms show False by (cases k) simp_all
qed

lemma getProp_no_member:
  assumes "k \<noteq> ''length''" "k \<noteq> []" "\<not> isDigit (hd k)" "\<forall>kvs. v \<noteq> JObject kvs"
  shows "getProp v k = JUndefined"
proof -
  have "filter (\<lambda>i. show_nat i = k) xs = []" for xs
    by (simp add: filter_empty_conv show_nat_not_name [OF assms(2,3)])
  with assms(1,4) show ?thesis by (cases v) (simp_all add: getProp_def)
qed

lemma optChain_member:
  assumes "k \<noteq> ''length''" "k \<noteq> []" "\<not> isDigit (hd k)"
  shows "optChain v k = (case spec_member v k of None \<Rightarrow> JUndefined | Some x \<Rightarrow> x)"
proof (cases "\<exists>kvs. v = JObject kvs")
  case True
  then show ?thesis by (auto simp: optChain_def getProp_def spec_member_def)
next
  case False
  then have "spec_member v k = None" by (cases v) (simp_all add: spec_member_def)
  moreover from False have "optChain v k = JUndefined"
    by (simp add: optChain_def getProp_no_member [OF assms])
  ultimately show ?thesis by simp
qed

lemma spec_member_none: "spec_member JUndefined k = None" "spec_member (JString s) k = None"
  by (simp_all add: spec_member_def)

lemma show_nat_zero: "show_nat 0 = ''0''"
  by (simp add: show_nat.simps digit_char_values)

lemma first_index:
  "filter (\<lambda>i. show_nat i = ''0'') [0..<Suc n] = 0 # filter (\<lambda>i. show_nat i = ''0'') [Suc 0..<Suc n]"
  by (simp add: upt_conv_Cons show_nat_zero del: upt_Suc)

lemma getProp_first:
  "getProp (JArray (x # xs)) ''0'' = x" "getProp (JArray []) ''0'' = JUndefined"
  "getProp (JString (c # s)) ''0'' = JString [c]" "getProp (JString []) ''0'' = JUndefined"
  by (simp_all add: getProp_def first_index del: upt_Suc)

text \<open>
  The element \<open>[0]\<close> of the chain: the first element of an array, the member \<open>0\<close> of an
  object; of a string its first character, which has no members.
\<close>

lemma optChain_first:
  "spec_member (optChain v ''0'') k = (case spec_element v 0 of None \<Rightarrow> None | Some x \<Rightarrow> spec_member x k)"
proof (cases v)
  case (JArray xs)
  then show ?thesis
    by (cases xs) (simp_all add: optChain_def getProp_first spec_element_def spec_member_none)
next
  case (JString s)
  then show ?thesis
    by (cases s) (simp_all add: optChain_def getProp_first spec_element_def spec_member_none)
next
  case (JObject kvs)
  then show ?thesis
    by (cases "map_of kvs ''0''")
      (simp_all add: optChain_def getProp_def spec_element_def spec_member_none show_nat_zero)
qed (simp_all add: optChain_def getProp_def spec_element_def spec_member_none)

lemma isDigit_names: "\<not> isDigit CHR ''c''" "\<not> isDigit CHR ''m''"
  by (simp_all add: isDigit_def)

text \<open>The optional chain of the code finds what the specification's path names, and nothing else.\<close>

lemma response_content_spec:
  "response_content j = (case spec_content j of None \<Rightarrow> JUndefined | Some x \<Rightarrow> x)"
proof -
  define a where "a = optChain j ''choices''"
  define b where "b = optChain a ''0''"
  define c where "c = optChain b ''message''"
  have a: "a = (case spec_member j ''choices'' of None \<Rightarrow> JUndefined | Some x \<Rightarrow> x)"
    unfolding a_def by (rule optChain_member) (simp_all add: isDigit_names)
  have b: "spec_member b ''message''
             = (case spec_element a 0 of None \<Rightarrow> None | Some x \<Rightarrow> spec_member x ''message'')"
    unfolding b_def by (rule optChain_first)
  have c: "c = (case spec_member b ''message'' of None \<Rightarrow> JUndefined | Some x \<Rightarrow> x)"
    unfolding c_def by (rule optChain_member) (simp_all add: isDigit_names)
  have d: "response_content j = (case spec_member c ''content'' of None \<Rightarrow> JUndefined | Some x \<Rightarrow> x)"
    unfolding response_content_def a_def [symmetric] b_def [symmetric] c_def [symmetric]
    by (rule optChain_member) (simp_all add: isDigit_names)
  show ?thesis
  proof (cases "spec_member j ''choices''")
    case None
    with a have "a = JUndefined" by simp
    then have "spec_element a 0 = None" by (simp add: spec_element_def)
    with b c d None show ?thesis by (simp add: spec_content_def spec_member_none)
  next
    case (Some choices)
    with a have a': "a = choices" by simp
    show ?thesis
    proof (cases "spec_element choices 0")
      case None
      with a' b c d Some show ?thesis by (simp add: spec_content_def spec_member_none)
    next
      case first: (Some first)
      show ?thesis
      proof (cases "spec_member first ''message''")
        case None
        with a' b c d Some first show ?thesis by (simp add: spec_content_def spec_member_none)
      next
        case message: (Some message)
        with a' b c d Some first show ?thesis by (simp add: spec_content_def)
      qed
    qed
  qed
qed

lemma response_content_string:
  "response_content j = JString c \<longleftrightarrow> spec_content j = Some (JString c)"
  by (cases "spec_content j") (simp_all add: response_content_spec)

text \<open>
  Claim C6. With a blank endpoint \<open>callLlm\<close> throws the configuration error and the world,
  its record of network calls included, is untouched. With an endpoint, one request is sent;
  when the network answers with a response, \<open>callLlm\<close> throws a backend error exactly when
  the status is not 200 or the JSON holds no string at \<open>choices[0].message.content\<close>, and
  otherwise returns that string as it is.
\<close>

theorem callLlm_contract:
  "(trim (llmEndpoint (settings w)) = [] \<longrightarrow>
      (\<exists>err. callLlm e ms w = (Inl err, w) \<and> isConfigError err)) \<and>
   (trim (llmEndpoint (settings w)) \<noteq> [] \<and> requestUrl e (llm_request (settings w) ms) = Inr resp \<longrightarrow>
      new_events w (snd (callLlm e ms w)) = [RequestUrl (llm_request (settings w) ms)] \<and>
      ((\<exists>err. fst (callLlm e ms w) = Inl err \<and> isBackendError err) \<longleftrightarrow>
         (status resp \<noteq> 200 \<or> (\<forall>c. spec_content (json resp) \<noteq> Some (JString c)))) \<and>
      (\<forall>c. status resp = 200 \<and> spec_content (json resp) = Some (JString c) \<longrightarrow>
         fst (callLlm e ms w) = Inr c))"
  using callLlm_by_content [of w e ms resp]
  by (simp add: isString_iff response_content_string)

lemma example_spec_content:
  "spec_content (json example_response) = Some (JString ''Summary text'')"
  by (simp add: example_response_def spec_content_def spec_member_def spec_element_def)

text \<open>Claim C6 on the response of the specification's example, and on a blank endpoint.\<close>

theorem callLlm_contract_witness:
  "trim (llmEndpoint (settings example_world)) \<noteq> [] \<and>
   requestUrl example_env (llm_request (settings example_world) []) = Inr example_response \<and>
   status example_response = 200 \<and>
   spec_content (json example_response) = Some (JString ''Summary text'') \<and>
   fst (callLlm example_env [] example_world) = Inr ''Summary text'' \<and>
   trim (llmEndpoint (settings (example_world\<lparr>settings := example_settings\<lparr>llmEndpoint := ''  ''\<rparr>\<rparr>))) = [] \<and>
   (\<exists>err. callLlm example_env [] (example_world\<lparr>settings := example_settings\<lparr>llmEndpoint := ''  ''\<rparr>\<rparr>)
     = (Inl err, example_world\<lparr>settings := example_settings\<lparr>llmEndpoint := ''  ''\<rparr>\<rparr>) \<and> isConfigError err)"
proof -
  have r: "requestUrl example_env (llm_request (settings example_world) []) = Inr example_response"
    by (simp add: example_env_def)
  have s: "status example_response = 200"
    by (simp add: example_response_def)
  from callLlm_contract [of example_world example_env "[]" example_response]
    example_endpoint r s example_spec_content
  have "fst (callLlm example_env [] example_world) = Inr ''Summary text''" by blast
  moreover from callLlm_contract
    [of "example_world\<lparr>settings := example_settings\<lparr>llmEndpoint := ''  ''\<rparr>\<rparr>" example_env "[]" example_response]
    example_blank
  have "\<exists>err. callLlm example_env [] (example_world\<lparr>settings := example_settings\<lparr>llmEndpoint := ''  ''\<rparr>\<rparr>)
     = (Inl err, example_world\<lparr>settings := example_settings\<lparr>llmEndpoint := ''  ''\<rparr>\<rparr>) \<and> isConfigError err"
    by blast
  ultimately show ?thesis using example_endpoint r s example_blank example_spec_content by blast
qed


subsection \<open>Segments of a path\<close>











subsection \<open>The loops of the archivist\<close>



lemma sortSummaries_loop_step:
  "sortSummaries_loop baseFolder yesterdayStamp (f # fs) w =
     (case summaries_plan baseFolder yesterdayStamp f of
        None \<Rightarrow> sortSummaries_loop baseFolder yesterdayStamp fs w
      | Some (folder, targetPath) \<Rightarrow>
          (case ensureFolderExists folder w of
             (Some err, w1) \<Rightarrow> (Some err, w1)
           | (None, w1) \<Rightarrow>
               (case adapter_rename f targetPath w1 of
                  (Some err, w2) \<Rightarrow> (Some err, w2)
                | (None, w2) \<Rightarrow> sortSummaries_loop baseFolder yesterdayStamp fs w2)))"
proof (cases "getSummaryDateStamp (pop_or_empty (split CHR ''/'' f))")
  case None
  then show ?thesis by (simp add: summaries_plan_def)
next
  case (Some d)
  define target where "target = normalizePath (baseFolder @ ''/'' @ tpl (year (getDateParts d)) @ ''/''
                                  @ tpl (month (getDateParts d)) @ ''/'' @ d @ ''_summary.md'')"
  show ?thesis
  proof (cases "d = [] \<or> \<not> isDateStampBefore d yesterdayStamp")
    case True
    with Some show ?thesis by (simp add: summaries_plan_def)
  next
    case skip: False
    show ?thesis
    proof (cases "f = target")
      case True
      with Some skip show ?thesis by (simp add: summaries_plan_def Let_def target_def)
    next
      case False
      with Some skip show ?thesis by (simp add: summaries_plan_def Let_def target_def)
    qed
  qed
qed

lemma sortSummaries_loop_plan:
  "sortSummaries_loop baseFolder yesterdayStamp fs w = relocate_loop (summaries_plan baseFolder yesterdayStamp) fs w"
proof (induction fs arbitrary: w)
  case Nil
  then show ?case by simp
next
  case (Cons f fs)
  show ?case
    by (simp only: sortSummaries_loop_step relocate_loop.simps Cons)
qed


lemma getSummaryDateStamp_Some:
  "getSummaryDateStamp name = Some d \<Longrightarrow> isDateStamp d \<and> name = d @ ''_summary.md''"
  by (auto simp: getSummaryDateStamp_def split: if_splits) (metis append_take_drop_id)


lemma summaries_plan_Some:
  assumes "summaries_plan baseFolder yesterdayStamp f = Some (dir, t)"
  shows "\<exists>d. getSummaryDateStamp (pop_or_empty (split CHR ''/'' f)) = Some d \<and> isDateStamp d \<and>
             isDateStampBefore d yesterdayStamp \<and> f \<noteq> t \<and>
             t = normalizePath (baseFolder @ ''/'' @ tpl (year (getDateParts d)) @ ''/''
                                @ tpl (month (getDateParts d)) @ ''/'' @ d @ ''_summary.md'')"
  using assms
  by (auto simp: summaries_plan_def Let_def split: option.splits if_splits
      dest: getSummaryDateStamp_Some)

lemma adapter_rename_trace:
  "adapter_rename f t w = (r, w') \<Longrightarrow> trace w' = trace w @ [Rename f t]"
  by (auto simp: adapter_rename_def Let_def emit_def split: if_splits)

text \<open>Every move a loop asks for is the planned move of a listed file.\<close>

lemma relocate_loop_renames:
  assumes "relocate_loop plan fs w = (r, w')"
  shows "\<exists>evs. trace w' = trace w @ evs \<and>
           (\<forall>f t. Rename f t \<in> set evs \<longrightarrow> f \<in> set fs \<and> (\<exists>dir. plan f = Some (dir, t)))"
  using assms
proof (induction fs arbitrary: w)
  case Nil
  then show ?case by simp
next
  case (Cons f fs)
  show ?case
  proof (cases "plan f")
    case None
    with Cons.prems have "relocate_loop plan fs w = (r, w')" by simp
    from Cons.IH [OF this] show ?thesis by auto
  next
    case (Some a)
    obtain dir t where a: "a = (dir, t)" by (cases a)
    obtain r1 w1 where e: "ensureFolderExists dir w = (r1, w1)" by (cases "ensureFolderExists dir w")
    note o = only_creates_folders_events [OF ensureFolderExists_only [OF e]]
    have nr: "\<And>f' t'. Rename f' t' \<notin> set (new_events w w1)"
      using o(2) by (auto simp: list_all_iff isCreateFolder_def)
    show ?thesis
    proof (cases r1)
      case (Some err)
      with Cons.prems \<open>plan f = Some a\<close> a e have "w' = w1" by simp
      with o(1) nr show ?thesis by blast
    next
      case n1: None
      obtain r2 w2 where rn: "adapter_rename f t w1 = (r2, w2)" by (cases "adapter_rename f t w1")
      note tr = adapter_rename_trace [OF rn]
      have t2: "trace w2 = trace w @ (new_events w w1 @ [Rename f t])"
        using o(1) tr by simp
      show ?thesis
      proof (cases r2)
        case (Some err)
        with Cons.prems \<open>plan f = Some a\<close> a e n1 rn have "w' = w2" by simp
        moreover have "\<forall>f' t'. Rename f' t' \<in> set (new_events w w1 @ [Rename f t]) \<longrightarrow>
            f' \<in> set (f # fs) \<and> (\<exists>dir. plan f' = Some (dir, t'))"
          using nr \<open>plan f = Some a\<close> a by auto
        ultimately show ?thesis using t2 by blast
      next
        case None
        with Cons.prems \<open>plan f = Some a\<close> a e n1 rn have "relocate_loop plan fs w2 = (r, w')" by simp
        from Cons.IH [OF this] obtain evs where evs: "trace w' = trace w2 @ evs"
          "\<forall>f' t'. Rename f' t' \<in> set evs \<longrightarrow> f' \<in> set fs \<and> (\<exists>dir. plan f' = Some (dir, t'))"
          by blast
        have "trace w' = trace w @ ((new_events w w1 @ [Rename f t]) @ evs)"
          using evs(1) t2 by simp
        moreover have "\<forall>f' t'. Rename f' t' \<in> set ((new_events w w1 @ [Rename f t]) @ evs) \<longrightarrow>
            f' \<in> set (f # fs) \<and> (\<exists>dir. plan f' = Some (dir, t'))"
          using nr evs(2) \<open>plan f = Some a\<close> a by auto
        ultimately show ?thesis by blast
      qed
    qed
  qed
qed


lemma sortSummaries_renames:
  assumes "Rename f t \<in> set (new_events w (snd (sortSummaries yesterdayStamp w)))"
  shows "\<exists>dir. summaries_plan (normalizePath (outputFolder (settings w))) yesterdayStamp f = Some (dir, t)"
proof -
  define base where "base = normalizePath (outputFolder (settings w))"
  show ?thesis
  proof (cases "base = [] \<or> base = ''.'' \<or> \<not> adapter_exists w base")
    case True
    then have "sortSummaries yesterdayStamp w = (None, w)"
      by (auto simp: sortSummaries_def base_def Let_def)
    with assms show ?thesis by (simp add: new_events_refl)
  next
    case False
    then have s: "sortSummaries yesterdayStamp w
        = relocate_loop (summaries_plan base yesterdayStamp) (adapter_list w base) w"
      by (auto simp: sortSummaries_def base_def Let_def sortSummaries_loop_plan)
    obtain r w' where l: "relocate_loop (summaries_plan base yesterdayStamp) (adapter_list w base) w = (r, w')"
      by (cases "relocate_loop (summaries_plan base yesterdayStamp) (adapter_list w base) w")
    from relocate_loop_renames [OF l] obtain evs where evs: "trace w' = trace w @ evs"
      "\<forall>f t. Rename f t \<in> set evs \<longrightarrow> (\<exists>dir. summaries_plan base yesterdayStamp f = Some (dir, t))"
      by blast
    from evs(1) have "new_events w w' = evs" by (rule new_events_append)
    with assms s l evs(2) show ?thesis by (simp add: base_def)
  qed
qed

text \<open>
  Claim C10. With sorting enabled, every move the summary pass asks for, run with the stamp
  of yesterday, takes the summary of a day in canonical form strictly before yesterday to
  the very path the resolver gives for that day.
\<close>

theorem archived_summary_is_found:
  assumes "sortDailyNotesAndSummaries (settings w)"
    and "Rename f t \<in> set (new_events w (snd (sortSummaries (getYesterdayStamp now) w)))"
  shows "\<exists>d. getSummaryDateStamp (pop_or_empty (split CHR ''/'' f)) = Some d \<and> isDateStamp d \<and>
             isDateStampBefore d (getYesterdayStamp now) \<and> t = getSummaryPath (settings w) now d"
proof -
  from sortSummaries_renames [OF assms(2)] obtain dir where
    "summaries_plan (normalizePath (outputFolder (settings w))) (getYesterdayStamp now) f = Some (dir, t)"
    by blast
  from summaries_plan_Some [OF this] obtain d where d:
    "getSummaryDateStamp (pop_or_empty (split CHR ''/'' f)) = Some d" "isDateStamp d"
    "isDateStampBefore d (getYesterdayStamp now)"
    "t = normalizePath (normalizePath (outputFolder (settings w)) @ ''/'' @ tpl (year (getDateParts d)) @ ''/''
                                @ tpl (month (getDateParts d)) @ ''/'' @ d @ ''_summary.md'')"
    by blast
  have "t = getSummaryPath (settings w) now d"
    using assms(1) d(3) by (simp add: d(4) normalizePath_append getSummaryPath_def Let_def)
  with d show ?thesis by blast
qed

lemma example_yesterday_stamp: "getYesterdayStamp example_clock = ''2026-02-20''"
  by (simp add: example_clock_def clock_defs)

lemma example_archive_move:
  "Rename ''Daily Summaries/2026-02-10_summary.md'' ''Daily Summaries/2026/02/2026-02-10_summary.md''
     \<in> set (new_events example_archive (snd (sortSummaries ''2026-02-20'' example_archive)))"
  by code_simp

lemma example_archive_sorting: "sortDailyNotesAndSummaries (settings example_archive)"
  by (simp add: example_archive_def)

text \<open>Claim C10 on a vault holding the summary of 10 February, archived on 21 February.\<close>

theorem archived_summary_is_found_witness:
  "sortDailyNotesAndSummaries (settings example_archive) \<and>
   Rename ''Daily Summaries/2026-02-10_summary.md'' ''Daily Summaries/2026/02/2026-02-10_summary.md''
     \<in> set (new_events example_archive (snd (sortSummaries (getYesterdayStamp example_clock) example_archive))) \<and>
   getSummaryDateStamp (pop_or_empty (split CHR ''/'' ''Daily Summaries/2026-02-10_summary.md'')) = Some ''2026-02-10'' \<and>
   ''Daily Summaries/2026/02/2026-02-10_summary.md''
     = getSummaryPath (settings example_archive) example_clock ''2026-02-10''"
proof -
  have m: "Rename ''Daily Summaries/2026-02-10_summary.md'' ''Daily Summaries/2026/02/2026-02-10_summary.md''
     \<in> set (new_events example_archive (snd (sortSummaries (getYesterdayStamp example_clock) example_archive)))"
    by (simp only: example_yesterday_stamp example_archive_move)
  have s: "getSummaryDateStamp (pop_or_empty (split CHR ''/'' ''Daily Summaries/2026-02-10_summary.md''))
             = Some ''2026-02-10''"
    by code_simp
  from archived_summary_is_found [OF example_archive_sorting m] s
  have "''Daily Summaries/2026/02/2026-02-10_summary.md''
     = getSummaryPath (settings example_archive) example_clock ''2026-02-10''"
    by auto
  with m s example_archive_sorting show ?thesis by blast
qed

subsection \<open>The archivist settles\<close>











subsection \<open>Passes\<close>






subsection \<open>The two plans\<close>




subsection \<open>A run of the archivist\<close>












end
